theory Spec2Isabelle
  imports Main "HOL-Library.Sublist" "HOL-Library.List_Lexorder" "HOL-Library.Code_Target_Nat"
begin

section \<open>Strings and the built-in Unicode operations\<close>

text \<open>
  A JavaScript string is a sequence of UTF-16 code units. \<open>Array.from(s)\<close> and
  \<open>for (const c of s)\<close> walk it by code points: a leading surrogate followed by a
  trailing surrogate is one element of two units, every other unit is an element of its
  own. \<open>s.length\<close>, \<open>s.substr\<close>, \<open>s.charAt\<close> and \<open>s[i]\<close> count units. A code unit is
  a number below \<open>2 ^ 16\<close>; the library compares units and never computes with them.
\<close>

type_synonym jsstring = "nat list"

definition js :: "string \<Rightarrow> jsstring" where
  "js s = map (\<lambda>c. of_char c) s"

definition isLead :: "nat \<Rightarrow> bool" where
  "isLead u = (0xD800 \<le> u \<and> u \<le> 0xDBFF)"

definition isTrail :: "nat \<Rightarrow> bool" where
  "isTrail u = (0xDC00 \<le> u \<and> u \<le> 0xDFFF)"

fun codepoints :: "jsstring \<Rightarrow> jsstring list" where
  "codepoints [] = []"
| "codepoints [u] = [[u]]"
| "codepoints (u # v # r) =
     (if isLead u \<and> isTrail v then [u, v] # codepoints r else [u] # codepoints (v # r))"

text \<open>
  \<open>String.prototype.normalize\<close>, \<open>toLowerCase\<close> and \<open>toUpperCase\<close> belong to the
  JavaScript runtime, not to the library. The library's functions take them as a
  parameter; \<open>asciiRuntime\<close> is what they do on strings of ASCII units, where both
  normal forms are the identity and case mapping only touches A-Z and a-z.
\<close>

record runtime =
  NFC :: "jsstring \<Rightarrow> jsstring"
  NFKD :: "jsstring \<Rightarrow> jsstring"
  toLowerCase :: "jsstring \<Rightarrow> jsstring"
  toUpperCase :: "jsstring \<Rightarrow> jsstring"

definition asciiLower :: "nat \<Rightarrow> nat" where
  "asciiLower u = (if 0x41 \<le> u \<and> u \<le> 0x5A then u + 0x20 else u)"

definition asciiUpper :: "nat \<Rightarrow> nat" where
  "asciiUpper u = (if 0x61 \<le> u \<and> u \<le> 0x7A then u - 0x20 else u)"

definition asciiRuntime :: runtime where
  "asciiRuntime = \<lparr> NFC = (\<lambda>s. s), NFKD = (\<lambda>s. s),
     toLowerCase = map asciiLower, toUpperCase = map asciiUpper \<rparr>"

text \<open>
  A runtime is faithful on ASCII when it does there what Unicode prescribes. The runtime
  of every JavaScript engine is.
\<close>

definition isAscii :: "jsstring \<Rightarrow> bool" where
  "isAscii s = list_all (\<lambda>u. u < 0x80) s"

definition asciiFaithful :: "runtime \<Rightarrow> bool" where
  "asciiFaithful R = (\<forall>s. isAscii s \<longrightarrow>
     NFC R s = s \<and> NFKD R s = s \<and> toLowerCase R s = map asciiLower s
     \<and> toUpperCase R s = map asciiUpper s)"

section \<open>collation.js\<close>

text \<open>\<open>s.replace(/c/g, r)\<close> for a single code unit \<open>c\<close>.\<close>

definition replaceUnit :: "nat \<Rightarrow> jsstring \<Rightarrow> jsstring \<Rightarrow> jsstring" where
  "replaceUnit c r s = concat (map (\<lambda>u. if u = c then r else [u]) s)"

text \<open>The rewrites of \<open>normalize\<close> that come before the call of \<open>normalize('NFKD')\<close>.\<close>

definition rewriteForeign :: "jsstring \<Rightarrow> jsstring" where
  "rewriteForeign s =
     filter (\<lambda>u. u \<noteq> 0xB7 \<and> u \<noteq> 0x2BA \<and> u \<noteq> 0xFFFD)
       (replaceUnit 0xD8 (js ''O'') (replaceUnit 0xF8 (js ''o'')
       (replaceUnit 0x131 (js ''i'')
       (replaceUnit 0xC6 (js ''Ae'') (replaceUnit 0xE6 (js ''ae'')
       (replaceUnit 0x152 (js ''Oe'') (replaceUnit 0x153 (js ''oe'')
       (replaceUnit 0x141 (js ''L'') (replaceUnit 0x142 (js ''l'')
       (replaceUnit 0x126 (js ''H'') (replaceUnit 0x127 (js ''h'')
       (replaceUnit 0xDE (js ''TH'') (replaceUnit 0xFE (js ''th'')
       (replaceUnit 0xD0 (js ''D'') (replaceUnit 0xF0 (js ''d'')
       (replaceUnit 0x110 (js ''D'') (replaceUnit 0x111 (js ''d'')
       (replaceUnit 0x1E9E (js ''SS'') (replaceUnit 0xDF (js ''ss'') s)))))))))))))))))))"

definition isCombiningMark :: "nat \<Rightarrow> bool" where
  "isCombiningMark u = (0x300 \<le> u \<and> u \<le> 0x36F)"

definition normalize :: "runtime \<Rightarrow> jsstring \<Rightarrow> jsstring" where
  "normalize R s = filter (\<lambda>u. \<not> isCombiningMark u) (NFKD R (rewriteForeign s))"

definition cEquiv :: "runtime \<Rightarrow> jsstring \<Rightarrow> jsstring \<Rightarrow> bool" where
  "cEquiv R s t = (toLowerCase R (normalize R s) = toLowerCase R (normalize R t))"

text \<open>
  The loop of \<open>getCollatingMatch\<close>: \<open>ss\<close> and \<open>tt\<close> are the two arrays of code
  points, \<open>i\<close> and \<open>j\<close> the two cursors, \<open>r0\<close> and \<open>r1\<close> the two result arrays.
  \<open>None\<close> is the \<open>false\<close> the source returns.
\<close>

function gcmLoop :: "runtime \<Rightarrow> jsstring list \<Rightarrow> jsstring list \<Rightarrow> nat \<Rightarrow> nat
    \<Rightarrow> jsstring list \<Rightarrow> jsstring list \<Rightarrow> (jsstring list \<times> jsstring list) option" where
  "gcmLoop R ss tt i j r0 r1 =
     (if j < length tt then
        (if i \<ge> length ss then
           (if cEquiv R [] (tt ! j)
            then gcmLoop R ss tt i (j + 1) (r0 @ [[]]) (r1 @ [tt ! j])
            else None)
         else if i + 1 < length ss \<and> j + 1 < length tt
                 \<and> cEquiv R (ss ! i @ ss ! (i + 1)) (tt ! j @ tt ! (j + 1)) then
           gcmLoop R ss tt (i + 1) (j + 1) (r0 @ [ss ! i]) (r1 @ [tt ! j])
         else if j + 1 < length tt
                 \<and> cEquiv R (ss ! i) (tt ! j @ tt ! (j + 1)) \<and> \<not> cEquiv R (tt ! (j + 1)) [] then
           (if cEquiv R [] (tt ! j)
            then gcmLoop R ss tt i (j + 1) (r0 @ [[]]) (r1 @ [tt ! j])
            else gcmLoop R ss tt (i + 1) (j + 2) (r0 @ [ss ! i]) (r1 @ [tt ! j @ tt ! (j + 1)]))
         else if i + 1 < length ss
                 \<and> cEquiv R (ss ! i @ ss ! (i + 1)) (tt ! j) \<and> \<not> cEquiv R (ss ! (i + 1)) [] then
           (if cEquiv R (ss ! i) []
            then gcmLoop R ss tt (i + 1) j (r0 @ [ss ! i]) (r1 @ [[]])
            else gcmLoop R ss tt (i + 2) (j + 1) (r0 @ [ss ! i @ ss ! (i + 1)]) (r1 @ [tt ! j]))
         else if cEquiv R (ss ! i) (tt ! j) then
           gcmLoop R ss tt (i + 1) (j + 1) (r0 @ [ss ! i]) (r1 @ [tt ! j])
         else if cEquiv R (ss ! i) [] then
           gcmLoop R ss tt (i + 1) j (r0 @ [ss ! i]) (r1 @ [[]])
         else None)
      else Some (r0, r1))"
  by pat_completeness auto
termination
  by (relation "measure (\<lambda>(R, ss, tt, i, j, r0, r1). (length tt - j) + (length ss - i))") auto

declare gcmLoop.simps [simp del]

definition getCollatingMatch :: "runtime \<Rightarrow> jsstring \<Rightarrow> jsstring
    \<Rightarrow> (jsstring list \<times> jsstring list) option" where
  "getCollatingMatch R s t = gcmLoop R (codepoints s) (codepoints t) 0 0 [] []"

section \<open>PrefixTree.js\<close>

text \<open>
  What the library throws: a \<open>TypeError\<close> of the runtime (a method called on a value
  that does not have it, a property read from \<open>undefined\<close>) or an \<open>Error\<close> the
  library constructs itself, with its message. \<open>NotModelled\<close> is no exception of
  the program: it marks the one place where the model does not follow the program, a
  short word that \<open>removeShortWords\<close> compiles into a regular expression and that is
  not plain text there.
\<close>

datatype jserror = TypeError | Error jsstring | NotModelled

text \<open>
  A node is a JavaScript \<open>Map\<close>. Its keys are strings: the next character of a
  position, \<open>'-'\<close> for the array of (rest of position, object) pairs that end in the
  node, \<open>'?'\<close> for the flag \<open>true\<close> of a node that has been split. The three kinds of
  value share the one key space of the map, as in the source.
\<close>

datatype 'a jsval = Arr "(jsstring \<times> 'a) list" | JTrue | JMap "(jsstring \<times> 'a jsval) list"

definition maxNodeSize :: nat where
  "maxNodeSize = 5"

definition mapGet :: "('k \<times> 'v) list \<Rightarrow> 'k \<Rightarrow> 'v option" where
  "mapGet m k = map_of m k"

definition mapHas :: "('k \<times> 'v) list \<Rightarrow> 'k \<Rightarrow> bool" where
  "mapHas m k = (map_of m k \<noteq> None)"

fun mapSet :: "('k \<times> 'v) list \<Rightarrow> 'k \<Rightarrow> 'v \<Rightarrow> ('k \<times> 'v) list" where
  "mapSet [] k v = [(k, v)]"
| "mapSet ((k', v') # m) k v = (if k' = k then (k, v) # m else (k', v') # mapSet m k v)"

text \<open>\<open>new Map()\<close> followed by \<open>set('-', [])\<close>.\<close>

definition newNode :: "'a jsval" where
  "newNode = JMap [(js ''-'', Arr [])]"

text \<open>
  The loop of \<open>splitNode\<close> over the pairs of the node's array: \<open>m\<close> is the node,
  \<open>ending\<close> is \<open>objectsEndingAtNode\<close>.
\<close>

fun splitLoop :: "(jsstring \<times> 'a jsval) list \<Rightarrow> (jsstring \<times> 'a) list \<Rightarrow> (jsstring \<times> 'a) list
    \<Rightarrow> jserror + ((jsstring \<times> 'a jsval) list \<times> (jsstring \<times> 'a) list)" where
  "splitLoop m ending [] = Inr (m, ending)"
| "splitLoop m ending ((position, object) # rest) =
     (if length position = 0 then splitLoop m (ending @ [(position, object)]) rest
      else
        let c = [hd position];
            m1 = (if \<not> mapHas m c then mapSet m c newNode else m)
        in (case mapGet m1 c of
              Some (JMap cm) \<Rightarrow>
                (case mapGet cm (js ''-'') of
                   Some (Arr cb) \<Rightarrow>
                     splitLoop (mapSet m1 c (JMap (mapSet cm (js ''-'') (Arr (cb @ [(tl position, object)])))))
                       ending rest
                 | _ \<Rightarrow> Inl TypeError)
            | _ \<Rightarrow> Inl TypeError))"

definition splitNode :: "'a jsval \<Rightarrow> jserror + 'a jsval" where
  "splitNode node =
     (case node of
        JMap m \<Rightarrow>
          (case mapGet m (js ''-'') of
             Some (Arr b) \<Rightarrow>
               (case splitLoop m [] b of
                  Inl e \<Rightarrow> Inl e
                | Inr (m', ending) \<Rightarrow> Inr (JMap (mapSet (mapSet m' (js ''-'') (Arr ending)) (js ''?'') JTrue)))
           | _ \<Rightarrow> Inl TypeError)
      | _ \<Rightarrow> Inl TypeError)"

text \<open>
  The end of \<open>add\<close>: push \<open>[position.substr(i), object]\<close> on the array of the node
  the loop stopped at, and split the node when the array has grown beyond
  \<open>maxNodeSize\<close>.
\<close>

definition deposit :: "'a jsval \<Rightarrow> nat \<Rightarrow> jsstring \<Rightarrow> 'a \<Rightarrow> jserror + 'a jsval" where
  "deposit node i position object =
     (case node of
        JMap m \<Rightarrow>
          (case mapGet m (js ''-'') of
             Some (Arr b) \<Rightarrow>
               (let node' = JMap (mapSet m (js ''-'') (Arr (b @ [(drop i position, object)])))
                in if length b + 1 > maxNodeSize then splitNode node' else Inr node')
           | _ \<Rightarrow> Inl TypeError)
      | _ \<Rightarrow> Inl TypeError)"

text \<open>
  The loop of \<open>add\<close> over the code points of \<open>position\<close>. The source walks down
  with a cursor and changes the node it stops at in place; no node is shared, so the
  model rebuilds the path to that node on the way back.
\<close>

fun addLoop :: "'a jsval \<Rightarrow> jsstring list \<Rightarrow> nat \<Rightarrow> jsstring \<Rightarrow> 'a \<Rightarrow> jserror + 'a jsval" where
  "addLoop node [] i position object = deposit node i position object"
| "addLoop node (c # cs) i position object =
     (case node of
        JMap m \<Rightarrow>
          (case mapGet m c of
             Some child \<Rightarrow>
               (case addLoop child cs (i + 1) position object of
                  Inl e \<Rightarrow> Inl e
                | Inr child' \<Rightarrow> Inr (JMap (mapSet m c child')))
           | None \<Rightarrow>
               (if mapHas m (js ''?'') then
                  (case addLoop newNode cs (i + 1) position object of
                     Inl e \<Rightarrow> Inl e
                   | Inr child' \<Rightarrow> Inr (JMap (mapSet m c child')))
                else deposit node i position object))
      | _ \<Rightarrow> Inl TypeError)"

text \<open>A \<open>PrefixTree\<close> is its root node; the constructor makes an empty one.\<close>

definition emptyTree :: "'a jsval" where
  "emptyTree = newNode"

definition add :: "'a jsval \<Rightarrow> jsstring \<Rightarrow> 'a \<Rightarrow> jserror + 'a jsval" where
  "add root position object = addLoop root (codepoints position) 0 position object"

text \<open>
  The loop of \<open>get\<close>. A child whose \<open>'-'\<close> entry is missing or is not an array makes
  the final \<open>result.map\<close> destructure a value that is no pair.
\<close>

fun getLoop :: "'a jsval \<Rightarrow> jsstring list \<Rightarrow> (jsstring \<times> 'a) list \<Rightarrow> jserror + (jsstring \<times> 'a) list" where
  "getLoop node [] result = Inr result"
| "getLoop node (c # cs) result =
     (case node of
        JMap m \<Rightarrow>
          (case mapGet m c of
             Some (JMap cm) \<Rightarrow>
               (case mapGet cm (js ''-'') of
                  Some (Arr b) \<Rightarrow> getLoop (JMap cm) cs (result @ b)
                | _ \<Rightarrow> Inl TypeError)
           | Some _ \<Rightarrow> Inl TypeError
           | None \<Rightarrow> Inr result)
      | _ \<Rightarrow> Inl TypeError)"

definition get :: "'a jsval \<Rightarrow> jsstring \<Rightarrow> jserror + 'a list" where
  "get root v =
     (case root of
        JMap m \<Rightarrow>
          (case mapGet m (js ''-'') of
             Some (Arr b) \<Rightarrow>
               (case getLoop root (codepoints v) b of
                  Inl e \<Rightarrow> Inl e
                | Inr result \<Rightarrow> Inr (map snd result))
           | _ \<Rightarrow> Inl TypeError)
      | _ \<Rightarrow> Inl TypeError)"

text \<open>A sequence of insertions into a tree, stopping at the first that throws.\<close>

fun addAll :: "'a jsval \<Rightarrow> (jsstring \<times> 'a) list \<Rightarrow> jserror + 'a jsval" where
  "addAll root [] = Inr root"
| "addAll root ((k, v) # kvs) =
     (case add root k v of Inl e \<Rightarrow> Inl e | Inr root' \<Rightarrow> addAll root' kvs)"

section \<open>The regular expressions of the runtime\<close>

text \<open>
  The library does most of its string work with regular expressions. They are modelled
  once, as data with a backtracking matcher that follows ECMAScript: alternatives are
  tried left to right, quantifiers are greedy, a quantifier whose minimum is zero gives
  up an iteration that matched the empty string, and a character is one code unit, or
  one code point with the flag \<open>u\<close>. The features are those the library uses: character
  classes over the Basic Multilingual Plane, \<open>.\<close>, \<open>^\<close>, \<open>$\<close>, sequence, alternative,
  quantifiers, capturing groups (none of them inside a quantifier).
\<close>

type_synonym cls = "(nat \<times> nat) list"

definition inCls :: "cls \<Rightarrow> nat \<Rightarrow> bool" where
  "inCls c u = list_ex (\<lambda>(lo, hi). lo \<le> u \<and> u \<le> hi) c"

datatype regex =
    In cls
  | NotIn cls
  | Dot
  | Bol
  | Eol
  | Seq regex regex
  | Alt regex regex
  | Rep nat "nat option" regex
  | Grp nat regex

text \<open>A position in the subject and the captures so far, latest first.\<close>

type_synonym captures = "(nat \<times> (nat \<times> nat)) list"
type_synonym mstate = "nat \<times> captures"

fun rsize :: "regex \<Rightarrow> nat" where
  "rsize (Seq a b) = rsize a + rsize b + 1"
| "rsize (Alt a b) = rsize a + rsize b + 1"
| "rsize (Rep lo hi a) = rsize a + 1"
| "rsize (Grp n a) = rsize a + 1"
| "rsize _ = 0"

fun repMin :: "regex \<Rightarrow> nat" where
  "repMin (Rep lo hi a) = lo"
| "repMin _ = 0"

definition isLineTerminator :: "nat \<Rightarrow> bool" where
  "isLineTerminator u = (u = 0xA \<or> u = 0xD \<or> u = 0x2028 \<or> u = 0x2029)"

text \<open>
  The character at position \<open>i\<close>: the number of its units and, when it is a single
  unit, that unit. With the flag \<open>u\<close> a surrogate pair is one character, which no
  class of the library contains.
\<close>

definition regexChar :: "bool \<Rightarrow> jsstring \<Rightarrow> nat \<Rightarrow> (nat \<times> nat option) option" where
  "regexChar uflag s i =
     (if i \<ge> length s then None
      else if uflag \<and> isLead (s ! i) \<and> i + 1 < length s \<and> isTrail (s ! (i + 1)) then Some (2, None)
      else Some (1, Some (s ! i)))"

text \<open>All ways a regular expression matches from a state, in the order backtracking tries them.\<close>

function ms :: "bool \<Rightarrow> jsstring \<Rightarrow> regex \<Rightarrow> mstate \<Rightarrow> mstate list" where
  "ms uf s (In c) st =
     (case regexChar uf s (fst st) of
        Some (n, Some x) \<Rightarrow> if inCls c x then [(fst st + n, snd st)] else []
      | _ \<Rightarrow> [])"
| "ms uf s (NotIn c) st =
     (case regexChar uf s (fst st) of
        Some (n, Some x) \<Rightarrow> if inCls c x then [] else [(fst st + n, snd st)]
      | Some (n, None) \<Rightarrow> [(fst st + n, snd st)]
      | None \<Rightarrow> [])"
| "ms uf s Dot st =
     (case regexChar uf s (fst st) of
        Some (n, Some x) \<Rightarrow> if isLineTerminator x then [] else [(fst st + n, snd st)]
      | Some (n, None) \<Rightarrow> [(fst st + n, snd st)]
      | None \<Rightarrow> [])"
| "ms uf s Bol st = (if fst st = 0 then [st] else [])"
| "ms uf s Eol st = (if fst st = length s then [st] else [])"
| "ms uf s (Seq a b) st = concat (map (ms uf s b) (ms uf s a st))"
| "ms uf s (Alt a b) st = ms uf s a st @ ms uf s b st"
| "ms uf s (Grp n a) st = map (\<lambda>st'. (fst st', (n, (fst st, fst st')) # snd st')) (ms uf s a st)"
| "ms uf s (Rep lo hi a) st =
     (if hi = Some 0 then [st]
      else concat (map (\<lambda>st'.
             if lo > 0 then ms uf s (Rep (lo - 1) (map_option (\<lambda>h. h - 1) hi) a) st'
             else if fst st < fst st' \<and> fst st' \<le> length s
               then ms uf s (Rep 0 (map_option (\<lambda>h. h - 1) hi) a) st'
             else []) (ms uf s a st))
           @ (if lo = 0 then [st] else []))"
  by pat_completeness auto
termination
  by (relation "inv_image (less_than <*lex*> less_than <*lex*> less_than)
        (\<lambda>(uf, s, r, st). (rsize r, repMin r, length s - fst st))") auto

declare ms.simps(9) [simp del]

text \<open>\<open>AdvanceStringIndex\<close>.\<close>

definition advance :: "bool \<Rightarrow> jsstring \<Rightarrow> nat \<Rightarrow> nat" where
  "advance uf s i =
     (if uf \<and> i + 1 < length s \<and> isLead (s ! i) \<and> isTrail (s ! (i + 1)) then i + 2 else i + 1)"

text \<open>
  \<open>RegExpBuiltinExec\<close> from index \<open>i\<close>: the first position at or after \<open>i\<close> where the
  expression matches, with the end and the captures of the match backtracking finds
  first.
\<close>

function search :: "bool \<Rightarrow> jsstring \<Rightarrow> regex \<Rightarrow> nat \<Rightarrow> (nat \<times> mstate) option" where
  "search uf s r i =
     (if i > length s then None
      else (case ms uf s r (i, []) of
              st # _ \<Rightarrow> Some (i, st)
            | [] \<Rightarrow> search uf s r (advance uf s i)))"
  by pat_completeness auto
termination
  by (relation "measure (\<lambda>(uf, s, r, i). length s + 1 - i)") (auto simp: advance_def)

declare search.simps [simp del]

text \<open>\<open>r.test(s)\<close> for an expression without the flags \<open>g\<close> and \<open>y\<close>.\<close>

definition test :: "bool \<Rightarrow> regex \<Rightarrow> jsstring \<Rightarrow> bool" where
  "test uf r s = (search uf s r 0 \<noteq> None)"

text \<open>A replacement string: literal text and references \<open>$n\<close> to groups.\<close>

datatype tpart = TLit jsstring | TGrp nat

definition substring :: "jsstring \<Rightarrow> nat \<Rightarrow> nat \<Rightarrow> jsstring" where
  "substring s a b = take (b - a) (drop a s)"

definition expand :: "tpart list \<Rightarrow> jsstring \<Rightarrow> captures \<Rightarrow> jsstring" where
  "expand tmpl s caps =
     concat (map (\<lambda>p. case p of
                        TLit l \<Rightarrow> l
                      | TGrp n \<Rightarrow> (case map_of caps n of Some (a, b) \<Rightarrow> substring s a b | None \<Rightarrow> []))
                 tmpl)"

text \<open>\<open>s.replace(r, tmpl)\<close> for an expression without the flag \<open>g\<close>: the first match only.\<close>

definition replaceFirst :: "bool \<Rightarrow> regex \<Rightarrow> tpart list \<Rightarrow> jsstring \<Rightarrow> jsstring" where
  "replaceFirst uf r tmpl s =
     (case search uf s r 0 of
        None \<Rightarrow> s
      | Some (a, (b, caps)) \<Rightarrow> take a s @ expand tmpl s caps @ drop b s)"

text \<open>What a match found by \<open>search\<close> spans; the loop of \<open>replaceAll\<close> terminates by it.\<close>

lemma regexChar_cases:
  "regexChar uf s i = None \<and> i \<ge> length s
   \<or> (\<exists>x. regexChar uf s i = Some (1, Some x) \<and> i < length s \<and> x = s ! i)
   \<or> (regexChar uf s i = Some (2, None) \<and> i + 1 < length s)"
  by (simp add: regexChar_def)

lemma ms_In_cases: "st' \<in> set (ms uf s (In c) st) \<Longrightarrow>
   \<exists>n. (n = 1 \<or> n = 2) \<and> st' = (fst st + n, snd st) \<and> fst st + n \<le> length s"
  using regexChar_cases[of uf s "fst st"] by (elim disjE exE conjE) (simp_all split: if_splits)

lemma ms_NotIn_cases: "st' \<in> set (ms uf s (NotIn c) st) \<Longrightarrow>
   \<exists>n. (n = 1 \<or> n = 2) \<and> st' = (fst st + n, snd st) \<and> fst st + n \<le> length s"
  using regexChar_cases[of uf s "fst st"] by (elim disjE exE conjE) (simp_all split: if_splits)

lemma ms_Dot_cases: "st' \<in> set (ms uf s Dot st) \<Longrightarrow>
   \<exists>n. (n = 1 \<or> n = 2) \<and> st' = (fst st + n, snd st) \<and> fst st + n \<le> length s"
  using regexChar_cases[of uf s "fst st"] by (elim disjE exE conjE) (simp_all split: if_splits)

lemma ms_Rep_cases:
  assumes "st' \<in> set (ms uf s (Rep lo hi a) st)" "hi \<noteq> Some 0"
  shows "st' = st
     \<or> (\<exists>st1. st1 \<in> set (ms uf s a st) \<and> lo > 0
            \<and> st' \<in> set (ms uf s (Rep (lo - 1) (map_option (\<lambda>h. h - 1) hi) a) st1))
     \<or> (\<exists>st1. st1 \<in> set (ms uf s a st) \<and> \<not> lo > 0 \<and> fst st < fst st1 \<and> fst st1 \<le> length s
            \<and> st' \<in> set (ms uf s (Rep 0 (map_option (\<lambda>h. h - 1) hi) a) st1))"
  using assms by (subst (asm) ms.simps(9)) (auto split: if_splits)

lemma ms_mono: "st' \<in> set (ms uf s r st) \<Longrightarrow> fst st \<le> fst st'"
proof (induction uf s r st arbitrary: st' rule: ms.induct)
  case (9 uf s lo hi a st)
  show ?case
  proof (cases "hi = Some 0")
    case True with "9.prems" show ?thesis by (simp add: ms.simps(9))
  next
    case False
    from ms_Rep_cases[OF "9.prems" False] consider (skip) "st' = st"
      | (iter) st1 where "st1 \<in> set (ms uf s a st)" "lo > 0"
          "st' \<in> set (ms uf s (Rep (lo - 1) (map_option (\<lambda>h. h - 1) hi) a) st1)"
      | (iter0) st1 where "st1 \<in> set (ms uf s a st)" "\<not> lo > 0" "fst st < fst st1"
          "fst st1 \<le> length s" "st' \<in> set (ms uf s (Rep 0 (map_option (\<lambda>h. h - 1) hi) a) st1)"
      by blast
    then show ?thesis
    proof cases
      case skip then show ?thesis by simp
    next
      case iter
      from "9.IH"(1)[OF False iter(1)] have "fst st \<le> fst st1" .
      moreover from "9.IH"(2)[OF False iter(1,2,3)] have "fst st1 \<le> fst st'" .
      ultimately show ?thesis by simp
    next
      case iter0
      have "fst st1 \<le> fst st'"
        by (rule "9.IH"(3)[OF False iter0(1,2) _ iter0(5)]) (use iter0(3,4) in simp)
      with iter0(3) show ?thesis by simp
    qed
  qed
next
  case (6 uf s a b st)
  from "6.prems" obtain st1 where 1: "st1 \<in> set (ms uf s a st)" and 2: "st' \<in> set (ms uf s b st1)"
    by auto
  from "6.IH"(1)[OF 1] "6.IH"(2)[OF 1 2] show ?case by simp
next
  case (7 uf s a b st)
  from "7.prems" have "st' \<in> set (ms uf s a st) \<or> st' \<in> set (ms uf s b st)" by simp
  then show ?case using "7.IH" by blast
next
  case (8 uf s n a st)
  from "8.prems" obtain st1 where "st1 \<in> set (ms uf s a st)" "fst st' = fst st1" by auto
  then show ?case using "8.IH" by simp
next
  case (1 uf s c st)
  from ms_In_cases[OF "1.prems"] show ?case by auto
next
  case (2 uf s c st)
  from ms_NotIn_cases[OF "2.prems"] show ?case by auto
next
  case (3 uf s st)
  from ms_Dot_cases[OF "3.prems"] show ?case by auto
next
  case (4 uf s st)
  from "4.prems" show ?case by (auto split: if_splits)
next
  case (5 uf s st)
  from "5.prems" show ?case by (auto split: if_splits)
qed

lemma search_Some:
  "search uf s r i = Some (a, (b, caps)) \<Longrightarrow> i \<le> a \<and> a \<le> b \<and> a \<le> length s
     \<and> (b, caps) \<in> set (ms uf s r (a, []))"
proof (induction uf s r i rule: search.induct)
  case (1 uf s r i)
  show ?case
  proof (cases "ms uf s r (i, [])")
    case Nil
    with "1.prems" have le: "\<not> i > length s" and
      rec: "search uf s r (advance uf s i) = Some (a, (b, caps))"
      by (subst (asm) search.simps, simp split: if_splits)+
    from "1.IH"[OF le Nil rec] show ?thesis by (auto simp: advance_def split: if_splits)
  next
    case (Cons st sts)
    with "1.prems" have le: "\<not> i > length s" and e: "a = i" "st = (b, caps)"
      by (subst (asm) search.simps, simp split: if_splits)+
    from Cons e have m: "(b, caps) \<in> set (ms uf s r (a, []))" by simp
    from ms_mono[OF m] le e show ?thesis using m by simp
  qed
qed

text \<open>
  \<open>s.replace(r, tmpl)\<close> for an expression with the flag \<open>g\<close>: every match from left to
  right, the search resuming at the end of the previous match, one character further
  after an empty match. \<open>src\<close> is the end of the previous match, from where the
  subject is copied.
\<close>

function replaceAllFrom :: "bool \<Rightarrow> regex \<Rightarrow> tpart list \<Rightarrow> jsstring \<Rightarrow> nat \<Rightarrow> nat \<Rightarrow> jsstring" where
  "replaceAllFrom uf r tmpl s i src =
     (case search uf s r i of
        None \<Rightarrow> drop src s
      | Some (a, (b, caps)) \<Rightarrow>
          substring s src a @ expand tmpl s caps
            @ replaceAllFrom uf r tmpl s (if b = a then advance uf s b else b) b)"
  by pat_completeness auto
termination
proof (relation "measure (\<lambda>(uf, r, tmpl, s, i, src). length s + 1 - i)", goal_cases)
  case 1 show ?case by simp
next
  case (2 uf r tmpl s i src x2 a y b caps)
  then have "search uf s r i = Some (a, (b, caps))" by simp
  from search_Some[OF this] show ?case by (auto simp: advance_def)
qed

declare replaceAllFrom.simps [simp del]

definition replaceAll :: "bool \<Rightarrow> regex \<Rightarrow> tpart list \<Rightarrow> jsstring \<Rightarrow> jsstring" where
  "replaceAll uf r tmpl s = replaceAllFrom uf r tmpl s 0 0"

text \<open>Building blocks: a literal string, a class from its characters, the class \<open>\s\<close>.\<close>

definition chars :: "string \<Rightarrow> cls" where
  "chars l = map (\<lambda>c. (of_char c, of_char c)) l"

fun lit :: "jsstring \<Rightarrow> regex" where
  "lit [] = Rep 0 (Some 0) Dot"
| "lit [u] = In [(u, u)]"
| "lit (u # v # r) = Seq (In [(u, u)]) (lit (v # r))"

definition wsCls :: cls where
  "wsCls = [(0x9, 0xD), (0x20, 0x20), (0xA0, 0xA0), (0x1680, 0x1680), (0x2000, 0x200A),
     (0x2028, 0x2029), (0x202F, 0x202F), (0x205F, 0x205F), (0x3000, 0x3000), (0xFEFF, 0xFEFF)]"

definition many :: "regex \<Rightarrow> regex" where
  "many r = Rep 0 None r"

definition many1 :: "regex \<Rightarrow> regex" where
  "many1 r = Rep 1 None r"

definition optional :: "regex \<Rightarrow> regex" where
  "optional r = Rep 0 (Some 1) r"

fun alts :: "regex list \<Rightarrow> regex" where
  "alts [] = In []"
| "alts [r] = r"
| "alts (r # rs) = Alt r (alts rs)"

fun seqs :: "regex list \<Rightarrow> regex" where
  "seqs [] = Rep 0 (Some 0) Dot"
| "seqs [r] = r"
| "seqs (r # rs) = Seq r (seqs rs)"

section \<open>Strings of the runtime\<close>

definition isWhiteSpace :: "nat \<Rightarrow> bool" where
  "isWhiteSpace u = inCls wsCls u"

text \<open>\<open>s.trim()\<close>.\<close>

definition trim :: "jsstring \<Rightarrow> jsstring" where
  "trim s = rev (dropWhile isWhiteSpace (rev (dropWhile isWhiteSpace s)))"

text \<open>\<open>s.split(c)\<close> for a separator \<open>c\<close> of one code unit.\<close>

fun splitUnit :: "nat \<Rightarrow> jsstring \<Rightarrow> jsstring list" where
  "splitUnit c [] = [[]]"
| "splitUnit c (u # r) =
     (if u = c then [] # splitUnit c r
      else (case splitUnit c r of h # t \<Rightarrow> (u # h) # t | [] \<Rightarrow> [[u]]))"

text \<open>
  \<open>s.split(r)\<close> for a regular expression without groups: \<open>p\<close> is the end of the last
  separator, \<open>q\<close> the position where a separator is tried next.
\<close>

function splitLoopR :: "regex \<Rightarrow> jsstring \<Rightarrow> nat \<Rightarrow> nat \<Rightarrow> jsstring list" where
  "splitLoopR r s p q =
     (if q < length s then
        (case ms False s r (q, []) of
           [] \<Rightarrow> splitLoopR r s p (q + 1)
         | (e, caps) # _ \<Rightarrow>
             if min e (length s) = p \<or> e < q then splitLoopR r s p (q + 1)
             else substring s p q # splitLoopR r s (min e (length s)) (min e (length s)))
      else [drop p s])"
  by pat_completeness auto
termination
  by (relation "measures [\<lambda>(r, s, p, q). length s - q, \<lambda>(r, s, p, q). if p = q then 0 else 1]")
     (auto simp: min_def split: if_splits)

declare splitLoopR.simps [simp del]

definition splitRegex :: "regex \<Rightarrow> jsstring \<Rightarrow> jsstring list" where
  "splitRegex r s =
     (if length s = 0 then (if ms False s r (0, []) = [] then [s] else [])
      else splitLoopR r s 0 0)"

text \<open>\<open>collation.newlineRegex\<close>: CR LF, or one of LF, VT, FF, CR, U+0085, U+2028, U+2029.\<close>

definition newlineRegex :: regex where
  "newlineRegex = Alt (Seq (In [(0xD, 0xD)]) (In [(0xA, 0xA)]))
     (In [(0xA, 0xA), (0xB, 0xB), (0xC, 0xC), (0xD, 0xD), (0x85, 0x85), (0x2028, 0x2028), (0x2029, 0x2029)])"

text \<open>
  \<open>collation.boundariesRegex\<close>: a class of the characters - _ . , : ; ! | = + * / ( ) & # % @ $ ?,
  white space, U+2013, U+2014, the backslash (0x5C) and the double quote (0x22).
\<close>

definition boundaryCls :: cls where
  "boundaryCls = chars ''-'' @ wsCls @ [(0x2013, 0x2013), (0x2014, 0x2014)]
     @ chars ''_.,:;!|=+*'' @ [(0x5C, 0x5C)] @ chars ''/'' @ [(0x22, 0x22)] @ chars ''()&#%@$?''"

definition boundariesRegex :: regex where
  "boundariesRegex = In boundaryCls"

section \<open>collation.js: promiscuouslyNormalize\<close>

definition promiscuouslyNormalize :: "runtime \<Rightarrow> jsstring \<Rightarrow> jsstring" where
  "promiscuouslyNormalize R s =
     replaceAll False (lit (js ''h'')) []
       (replaceAll False (lit (js ''kh'')) []
         (replaceAll False (NotIn (chars '' '' @ [(0x61, 0x7A)])) [TLit (js '' '')]
           (replaceAll True (Seq (In wsCls) Eol) []
             (replaceAll True (Seq Bol (In wsCls)) []
               (replaceAll True (many1 (In wsCls)) [TLit (js '' '')]
                 (replaceAll False boundariesRegex [TLit (js '' '')]
                   (toLowerCase R (normalize R s))))))))"

section \<open>AbbrevIso.js: the patterns and the construction of the engine\<close>

text \<open>
  An \<open>LTWAPattern\<close> object. \<open>oid\<close> is the identity of the object, which
  \<open>getPotentialPatterns\<close> compares with \<open>!==\<close>.
\<close>

record LTWAPattern =
  pattern :: jsstring
  replacement :: jsstring
  languages :: "jsstring list"
  startDash :: bool
  endDash :: bool
  line :: jsstring
  oid :: nat

text \<open>\<open>s.charAt(i)\<close>.\<close>

definition charAt :: "jsstring \<Rightarrow> nat \<Rightarrow> jsstring" where
  "charAt s i = (if i < length s then [s ! i] else [])"

text \<open>The expression \<open>/\(.*\)/\<close> that removes a comment in parentheses.\<close>

definition commentRegex :: regex where
  "commentRegex = seqs [In (chars ''(''), many Dot, In (chars '')'')]"

text \<open>
  \<open>new LTWAPattern(line)\<close>; \<open>ident\<close> is the identity of the new object. The two errors
  carry the message the source builds, with the line between double quotes.
\<close>

definition newLTWAPattern :: "runtime \<Rightarrow> nat \<Rightarrow> jsstring \<Rightarrow> jserror + LTWAPattern" where
  "newLTWAPattern R ident l =
     (let a = splitUnit 0x9 l in
      if length a \<noteq> 3 then
        Inl (Error (js ''Number of fields in LTWA line is not 3: '' @ [0x22] @ l @ [0x22]))
      else
        let p = trim (NFC R (a ! 0));
            p = trim (replaceFirst False commentRegex [] p)
        in if length p < 3 then
             Inl (Error (js ''LTWA line has too short pattern: '' @ [0x22] @ l @ [0x22]))
           else
             let rep = trim (NFC R (a ! 1)) in
             Inr \<lparr> pattern = p,
                   replacement = (if rep \<in> set [js ''n.a.'', js ''n. a.'', js ''n.a''] then [0x2013] else rep),
                   languages = map trim (splitUnit 0x2C (a ! 2)),
                   startDash = (charAt p 0 = js ''-''),
                   endDash = (charAt p (length p - 1) = js ''-''),
                   line = l,
                   oid = ident \<rparr>)"

text \<open>
  The engine, with the fields \<open>badPatterns_\<close>, \<open>nonprefixPatterns_\<close>, \<open>dictPatterns_\<close>,
  \<open>size_\<close> and \<open>shortWords_\<close> of the source (a name cannot end in an underscore here).
  Its two prefix trees hold pattern objects; \<open>badPatterns_\<close> is an array,
  which \<open>getPotentialPatterns\<close> reads and sorts.
\<close>

record engine =
  badPatterns :: "LTWAPattern list"
  nonprefixPatterns :: "LTWAPattern jsval"
  dictPatterns :: "LTWAPattern jsval"
  engineSize :: nat
  shortWordList :: "jsstring list"

definition stripStartDash :: "jsstring \<Rightarrow> jsstring" where
  "stripStartDash s = replaceFirst False (Seq Bol (In (chars ''-''))) [] s"

definition stripEndDash :: "jsstring \<Rightarrow> jsstring" where
  "stripEndDash s = replaceFirst False (Seq (In (chars ''-'')) Eol) [] s"

definition addPattern :: "runtime \<Rightarrow> engine \<Rightarrow> LTWAPattern \<Rightarrow> jserror + engine" where
  "addPattern R eng pat =
     (let p = normalize R (stripEndDash (stripStartDash (pattern pat)));
          eng1 = (if \<not> test True (Seq Bol (In [(0x41, 0x5A), (0x61, 0x7A)])) p
                  then eng\<lparr>badPatterns := badPatterns eng @ [pat]\<rparr> else eng);
          p = promiscuouslyNormalize R p
      in if startDash pat then
           (case add (nonprefixPatterns eng1) p pat of
              Inl e \<Rightarrow> Inl e
            | Inr t \<Rightarrow> Inr (eng1\<lparr>nonprefixPatterns := t, engineSize := engineSize eng1 + 1\<rparr>))
         else
           (case add (dictPatterns eng1) p pat of
              Inl e \<Rightarrow> Inl e
            | Inr t \<Rightarrow> Inr (eng1\<lparr>dictPatterns := t, engineSize := engineSize eng1 + 1\<rparr>)))"

text \<open>
  The two arguments of the constructor are each a string, which is split into lines, or
  an array of lines.
\<close>

datatype textInput = Text jsstring | Lines "jsstring list"

definition linesOf :: "textInput \<Rightarrow> jsstring list" where
  "linesOf t = (case t of Text s \<Rightarrow> splitRegex newlineRegex s | Lines ls \<Rightarrow> ls)"

text \<open>The loop of the constructor over the lines after the header.\<close>

fun addLines :: "runtime \<Rightarrow> engine \<Rightarrow> jsstring list \<Rightarrow> jserror + engine" where
  "addLines R eng [] = Inr eng"
| "addLines R eng (l # ls) =
     (if length (trim l) = 0 then addLines R eng ls
      else (case newLTWAPattern R (engineSize eng) l of
              Inl e \<Rightarrow> Inl e
            | Inr pat \<Rightarrow>
                (case addPattern R eng pat of
                   Inl e \<Rightarrow> Inl e
                 | Inr eng' \<Rightarrow> addLines R eng' ls)))"

definition newAbbrevIso :: "runtime \<Rightarrow> textInput \<Rightarrow> textInput \<Rightarrow> jserror + engine" where
  "newAbbrevIso R ltwa shortWords =
     (case addLines R \<lparr> badPatterns = [], nonprefixPatterns = emptyTree, dictPatterns = emptyTree,
                         engineSize = 0, shortWordList = [] \<rparr> (tl (linesOf ltwa)) of
        Inl e \<Rightarrow> Inl e
      | Inr eng \<Rightarrow>
          Inr (eng\<lparr>shortWordList := filter (\<lambda>s. length s > 0) (map trim (linesOf shortWords))\<rparr>))"

section \<open>AbbrevIso.js: the queries\<close>

subsection \<open>getPotentialPatterns\<close>

text \<open>
  The variable \<open>result\<close> of \<open>getPotentialPatterns\<close> holds a reference to an array:
  at first the array \<open>this.badPatterns_\<close> itself, after a \<open>concat\<close> a fresh array.
\<close>

datatype arrayRef = BadPatterns | Fresh "LTWAPattern list"

definition deref :: "engine \<Rightarrow> arrayRef \<Rightarrow> LTWAPattern list" where
  "deref eng r = (case r of BadPatterns \<Rightarrow> badPatterns eng | Fresh xs \<Rightarrow> xs)"

text \<open>\<open>result.concat(tree.get(key))\<close>.\<close>

definition concatGet :: "engine \<Rightarrow> arrayRef \<Rightarrow> LTWAPattern jsval \<Rightarrow> jsstring \<Rightarrow> jserror + arrayRef" where
  "concatGet eng result tree key =
     (case get tree key of Inl e \<Rightarrow> Inl e | Inr ps \<Rightarrow> Inr (Fresh (deref eng result @ ps)))"

function gppLoop :: "engine \<Rightarrow> bool \<Rightarrow> jsstring \<Rightarrow> nat \<Rightarrow> bool \<Rightarrow> arrayRef \<Rightarrow> jserror + arrayRef" where
  "gppLoop eng pretendDash s i isNewWord result =
     (if i < length s then
        (if \<not> test False (In [(0x61, 0x7A), (0x41, 0x5A)]) (charAt s i) then
           gppLoop eng pretendDash s (i + 1) True result
         else
           (case (if isNewWord \<or> pretendDash
                  then concatGet eng result (dictPatterns eng) (drop i s) else Inr result) of
              Inl e \<Rightarrow> Inl e
            | Inr result1 \<Rightarrow>
                (case concatGet eng result1 (nonprefixPatterns eng) (drop i s) of
                   Inl e \<Rightarrow> Inl e
                 | Inr result2 \<Rightarrow> gppLoop eng pretendDash s (i + 1) False result2)))
      else Inr result)"
  by pat_completeness auto
termination
  by (relation "measure (\<lambda>(eng, pretendDash, s, i, isNewWord, result). length s - i)") auto

declare gppLoop.simps [simp del]

text \<open>
  \<open>result.sort()\<close> compares the elements as strings, by code units, and is stable;
  \<open>toString\<close> of a pattern is \<open>'[object LTWAPattern: ' + this.line + ']'\<close>.
\<close>

definition toString :: "LTWAPattern \<Rightarrow> jsstring" where
  "toString pat = js ''[object LTWAPattern: '' @ line pat @ js '']''"

definition sortPatterns :: "LTWAPattern list \<Rightarrow> LTWAPattern list" where
  "sortPatterns xs = sort_key toString xs"

text \<open>\<open>res.filter((x, i, res) => !i || x !== res[i-1])\<close>.\<close>

fun dropRepeats :: "LTWAPattern list \<Rightarrow> LTWAPattern list" where
  "dropRepeats [] = []"
| "dropRepeats [x] = [x]"
| "dropRepeats (x # y # r) = (if y \<noteq> x then x # dropRepeats (y # r) else dropRepeats (y # r))"

text \<open>
  The query returns its result and leaves the engine in a state: \<open>sort\<close> works in
  place, on the array that \<open>result\<close> refers to.
\<close>

definition getPotentialPatterns :: "runtime \<Rightarrow> engine \<Rightarrow> jsstring \<Rightarrow> bool
    \<Rightarrow> jserror + (LTWAPattern list \<times> engine)" where
  "getPotentialPatterns R eng s pretendDash =
     (case gppLoop eng pretendDash (promiscuouslyNormalize R s) 0 True BadPatterns of
        Inl e \<Rightarrow> Inl e
      | Inr BadPatterns \<Rightarrow>
          (let eng' = eng\<lparr>badPatterns := sortPatterns (badPatterns eng)\<rparr>
           in Inr (dropRepeats (badPatterns eng'), eng'))
      | Inr (Fresh xs) \<Rightarrow> Inr (dropRepeats (sortPatterns xs), eng))"

subsection \<open>getPatternMatches\<close>

text \<open>A match is the array \<open>[i, iend, abbr, pattern, appendix]\<close>.\<close>

type_synonym match = "nat \<times> nat \<times> jsstring \<times> LTWAPattern \<times> jsstring"

definition mI :: "match \<Rightarrow> nat" where "mI m = fst m"
definition mIend :: "match \<Rightarrow> nat" where "mIend m = fst (snd m)"
definition mAbbr :: "match \<Rightarrow> jsstring" where "mAbbr m = fst (snd (snd m))"
definition mPattern :: "match \<Rightarrow> LTWAPattern" where "mPattern m = fst (snd (snd (snd m)))"
definition mAppendix :: "match \<Rightarrow> jsstring" where "mAppendix m = snd (snd (snd (snd m)))"

text \<open>\<open>collation.boundariesRegex.test(value[i])\<close> for an index inside \<open>value\<close>.\<close>

definition boundaryAt :: "jsstring \<Rightarrow> nat \<Rightarrow> bool" where
  "boundaryAt v i = test False boundariesRegex [v ! i]"

text \<open>
  The \<open>while\<close> loop that skips entries of the alignment until one is equivalent to
  the replacement character \<open>j\<close>, or to that character and the next. Reading
  \<open>r[1][ii]\<close> or \<open>r[0][ii]\<close> beyond the end gives \<open>undefined\<close>, and \<open>cEquiv\<close> of it,
  or its \<open>length\<close>, throws.
\<close>

function skipLoop :: "runtime \<Rightarrow> jsstring list \<Rightarrow> jsstring list \<Rightarrow> jsstring list \<Rightarrow> nat \<Rightarrow> nat \<Rightarrow> nat
    \<Rightarrow> jserror + (nat \<times> nat)" where
  "skipLoop R r0 r1 rep j ii iend =
     (if ii < length r1 then
        (if \<not> cEquiv R (r1 ! ii) (rep ! j)
            \<and> (j + 1 \<ge> length rep \<or> \<not> cEquiv R (r1 ! ii) (rep ! j @ rep ! (j + 1))) then
           (if ii + 1 < length r0 then skipLoop R r0 r1 rep j (ii + 1) (iend + length (r0 ! (ii + 1)))
            else Inl TypeError)
         else Inr (ii, iend))
      else Inl TypeError)"
  by pat_completeness auto
termination
  by (relation "measure (\<lambda>(R, r0, r1, rep, j, ii, iend). length r0 - ii)") auto

declare skipLoop.simps [simp del]

text \<open>\<open>abbr += r[0][ii]\<close>: an element beyond the end is \<open>undefined\<close>.\<close>

definition elemText :: "jsstring list \<Rightarrow> nat \<Rightarrow> jsstring" where
  "elemText xs i = (if i < length xs then xs ! i else js ''undefined'')"

text \<open>The \<open>for\<close> loop over the characters of the replacement.\<close>

function walk :: "runtime \<Rightarrow> jsstring list \<Rightarrow> jsstring list \<Rightarrow> jsstring list \<Rightarrow> nat \<Rightarrow> nat \<Rightarrow> nat
    \<Rightarrow> jsstring \<Rightarrow> jserror + (nat \<times> nat \<times> jsstring)" where
  "walk R r0 r1 rep j ii iend abbr =
     (if j < length rep then
        (if rep ! j = js ''.'' then walk R r0 r1 rep (j + 1) ii iend (abbr @ js ''.'')
         else
           (case skipLoop R r0 r1 rep j ii iend of
              Inl e \<Rightarrow> Inl e
            | Inr (ii1, iend1) \<Rightarrow>
                (let j1 = (if \<not> cEquiv R (r1 ! ii1) (rep ! j) then j + 1 else j);
                     abbr1 = abbr @ elemText r0 ii1;
                     ii2 = ii1 + 1;
                     iend2 = (if ii2 < length r0 then iend1 + length (r0 ! ii2) else iend1)
                 in walk R r0 r1 rep (j1 + 1) ii2 iend2 abbr1)))
      else Inr (ii, iend, abbr))"
  by pat_completeness auto
termination
  by (relation "measure (\<lambda>(R, r0, r1, rep, j, ii, iend, abbr). length rep - j)") auto

declare walk.simps [simp del]

text \<open>\<open>for (ii++; ii < r[0].length; ii++) iend += r[0][ii].length\<close>, entered after the \<open>ii++\<close>.\<close>

function restLoop :: "jsstring list \<Rightarrow> nat \<Rightarrow> nat \<Rightarrow> nat" where
  "restLoop r0 ii iend = (if ii < length r0 then restLoop r0 (ii + 1) (iend + length (r0 ! ii)) else iend)"
  by pat_completeness auto
termination
  by (relation "measure (\<lambda>(r0, ii, iend). length r0 - ii)") auto

declare restLoop.simps [simp del]

text \<open>After a pattern with an ending dash: on to the next boundary.\<close>

function extendLoop :: "jsstring \<Rightarrow> nat \<Rightarrow> nat" where
  "extendLoop v iend =
     (if iend < length v \<and> \<not> boundaryAt v iend then extendLoop v (iend + 1) else iend)"
  by pat_completeness auto
termination
  by (relation "measure (\<lambda>(v, iend). length v - iend)") auto

declare extendLoop.simps [simp del]

text \<open>
  The expression \<open>ending\<close>, with the flag \<open>u\<close>: at the start, up to three of the
  characters i a e s n, apostrophe (0x27) and U+2019, as group 1, then the end of the
  string or a boundary character.
\<close>

definition endingRegex :: regex where
  "endingRegex = seqs [Bol, Grp 1 (Rep 0 (Some 3) (In (chars ''iaesn'' @ [(0x27, 0x27), (0x2019, 0x2019)]))),
     Grp 2 (Alt Eol (In boundaryCls))]"

text \<open>
  The loop of \<open>getPatternMatches\<close> over the positions \<open>i\<close> of \<open>value\<close>; \<open>p\<close> is the
  pattern without its dashes, \<open>rep\<close> the array of the characters of the replacement.
\<close>

function gpmLoop :: "runtime \<Rightarrow> jsstring \<Rightarrow> LTWAPattern \<Rightarrow> jsstring \<Rightarrow> jsstring list \<Rightarrow> bool
    \<Rightarrow> nat \<Rightarrow> bool \<Rightarrow> match list \<Rightarrow> jserror + match list" where
  "gpmLoop R v pat p rep pretendDash i isPreviousCharBoundary result =
     (if i < length v then
        (if \<not> startDash pat \<and> \<not> pretendDash \<and> \<not> isPreviousCharBoundary then
           gpmLoop R v pat p rep pretendDash (i + 1) (boundaryAt v i) result
         else
           (case getCollatingMatch R (drop i v) p of
              None \<Rightarrow> gpmLoop R v pat p rep pretendDash (i + 1) (boundaryAt v i) result
            | Some (r0, r1) \<Rightarrow>
                (if length r0 = 0 then Inl TypeError
                 else
                   (case walk R r0 r1 rep 0 0 (i + length (r0 ! 0)) [] of
                      Inl e \<Rightarrow> Inl e
                    | Inr (ii, iend0, abbr0) \<Rightarrow>
                        (let iend1 = restLoop r0 (ii + 1) iend0 in
                         if endDash pat \<or> pretendDash then
                           (let iend = extendLoop v iend1;
                                abbr = (if rep = [] then substring v i iend else abbr0)
                            in gpmLoop R v pat p rep pretendDash (i + 1) (boundaryAt v i)
                                 (result @ [(i, iend, abbr, pat, [])]))
                         else
                           (case search True (drop iend1 v) endingRegex 0 of
                              None \<Rightarrow> gpmLoop R v pat p rep pretendDash (i + 1) (boundaryAt v i) result
                            | Some (a, (b, caps)) \<Rightarrow>
                                (case map_of caps 1 of
                                   None \<Rightarrow> Inl TypeError
                                 | Some (x, y) \<Rightarrow>
                                     (let appendix = substring (drop iend1 v) x y;
                                          iend = iend1 + length appendix;
                                          abbr = (if rep = [] then substring v i iend else abbr0)
                                      in gpmLoop R v pat p rep pretendDash (i + 1) (boundaryAt v i)
                                           (result @ [(i, iend, abbr, pat, appendix)])))))))))
      else Inr result)"
  by pat_completeness auto
termination
  by (relation "measure (\<lambda>(R, v, pat, p, rep, pretendDash, i, b, result). length v - i)") auto

declare gpmLoop.simps [simp del]

text \<open>
  \<open>langs\<close> is \<open>None\<close> for an argument that is \<open>undefined\<close> or left out, which the
  default \<open>['*']\<close> replaces.
\<close>

definition getPatternMatches :: "runtime \<Rightarrow> jsstring \<Rightarrow> LTWAPattern \<Rightarrow> jsstring list option \<Rightarrow> bool
    \<Rightarrow> jserror + match list" where
  "getPatternMatches R v pat langs pretendDash =
     (let ls = (case langs of None \<Rightarrow> [js ''*''] | Some l \<Rightarrow> l) in
      if js ''*'' \<notin> set ls \<and> \<not> list_ex (\<lambda>x. x \<in> set ls) (languages pat) then Inr []
      else
        let rep0 = (if replacement pat = [0x2013] then [] else replacement pat);
            p0 = pattern pat;
            p1 = (if startDash pat \<or> pretendDash then stripStartDash p0 else p0);
            rep1 = (if startDash pat \<or> pretendDash then stripStartDash rep0 else rep0);
            p2 = (if endDash pat \<or> pretendDash then stripEndDash p1 else p1)
        in gpmLoop R v pat p2 (codepoints rep1) pretendDash 0 True [])"

text \<open>The matches of a list of patterns, concatenated, as two of the queries collect them.\<close>

fun collectMatches :: "runtime \<Rightarrow> jsstring \<Rightarrow> LTWAPattern list \<Rightarrow> jsstring list option \<Rightarrow> bool
    \<Rightarrow> match list \<Rightarrow> jserror + match list" where
  "collectMatches R v [] langs pretendDash matches = Inr matches"
| "collectMatches R v (pat # pats) langs pretendDash matches =
     (case getPatternMatches R v pat langs pretendDash of
        Inl e \<Rightarrow> Inl e
      | Inr found \<Rightarrow> collectMatches R v pats langs pretendDash (matches @ found))"

subsection \<open>getMatchingPatterns\<close>

definition getMatchingPatterns :: "runtime \<Rightarrow> engine \<Rightarrow> jsstring \<Rightarrow> jsstring list option \<Rightarrow> bool
    \<Rightarrow> LTWAPattern list option \<Rightarrow> jserror + (LTWAPattern list \<times> engine)" where
  "getMatchingPatterns R eng v langs pretendDash patterns =
     (case (case patterns of
              None \<Rightarrow> getPotentialPatterns R eng v pretendDash
            | Some ps \<Rightarrow> Inr (ps, eng)) of
        Inl e \<Rightarrow> Inl e
      | Inr (ps, eng') \<Rightarrow>
          (case collectMatches R (trim (NFC R v)) ps langs pretendDash [] of
             Inl e \<Rightarrow> Inl e
           | Inr matches \<Rightarrow> Inr (map mPattern (sort_key mI matches), eng')))"

section \<open>AbbrevIso.js: removeShortWords and makeAbbreviation\<close>

text \<open>
  \<open>removeShortWords\<close> builds the expression \<open>before + word + '\\s'\<close> from each word. A
  word without a syntax character of regular expressions and without surrogates
  stands for itself there; for any other word the model stops with \<open>NotModelled\<close>.
\<close>

definition syntaxCls :: cls where
  "syntaxCls = chars ''^$.*+?()[]{}|'' @ [(0x5C, 0x5C), (0xD800, 0xDFFF)]"

definition isPlainWord :: "jsstring \<Rightarrow> bool" where
  "isPlainWord w = list_all (\<lambda>u. \<not> inCls syntaxCls u) w"

text \<open>The loop over \<open>wordList\<close>; \<open>before\<close> is the compiled first part of the expression.\<close>

fun removeWords :: "regex \<Rightarrow> jsstring list \<Rightarrow> jsstring \<Rightarrow> jserror + jsstring" where
  "removeWords before [] s = Inr s"
| "removeWords before (w # ws) s =
     (if isPlainWord w
      then removeWords before ws (replaceAll True (seqs [before, lit w, In wsCls]) [TGrp 1] s)
      else Inl NotModelled)"

definition removeShortWords :: "runtime \<Rightarrow> jsstring \<Rightarrow> jsstring list \<Rightarrow> regex \<Rightarrow> jserror + jsstring" where
  "removeShortWords R s shortWords before =
     removeWords before
       (shortWords @ map (\<lambda>w. toUpperCase R (charAt w 0) @ drop 1 w) shortWords) s"

text \<open>
  The local \<open>boundariesRegex\<close> of \<open>makeAbbreviation\<close>,
  the class of \<open>collation.boundariesRegex\<close> without + & ?, and the two forms of \<open>before\<close>.
\<close>

definition plannerCls :: cls where
  "plannerCls = chars ''-'' @ wsCls @ [(0x2013, 0x2013), (0x2014, 0x2014)]
     @ chars ''_.,:;!|=*'' @ [(0x5C, 0x5C)] @ chars ''/'' @ [(0x22, 0x22)] @ chars ''()#%@$''"

definition beforeStartOrBoundary :: regex where
  "beforeStartOrBoundary = Grp 1 (Alt Bol (In plannerCls))"

definition beforeBoundary :: regex where
  "beforeBoundary = Grp 1 (In plannerCls)"

definition articles :: "jsstring list" where
  "articles = map js [''a'', ''an'', ''the'', ''der'', ''die'', ''das'', ''den'', ''dem'',
     ''des'', ''le'', ''la'', ''les'', ''el'', ''il'', ''lo'', ''los'', ''de'', ''het'',
     ''els'', ''ses'', ''es'', ''gli'', ''een''] @ [[0x27] @ js ''t'', [0x27] @ js ''n'']"

text \<open>The steps on punctuation, in the order of the source.\<close>

definition upperCls :: cls where
  "upperCls = [(0x41, 0x5A)]"

definition punctuation :: "jsstring \<Rightarrow> jsstring" where
  "punctuation s0 =
     (let s = replaceAll True (lit (js ''...'')) [] s0;
          s = replaceAll True (In [(0x2026, 0x2026)]) [] s;
          s = replaceAll True (In (chars '','')) [] s;
          s = replaceAll True (In (chars ''.'')) [TLit (js '','')] s;
          acronym = seqs [Grp 1 (seqs [Grp 2 (Alt Bol (In (upperCls @ chars '',.&-'' @ [(0x5C, 0x5C)] @ chars ''/''))),
                                       optional (In wsCls), In upperCls]), In (chars '','')];
          s = replaceAll True acronym [TGrp 1, TLit (js ''.'')] s;
          s = replaceAll True acronym [TGrp 1, TLit (js ''.'')] s;
          s = replaceAll True (seqs [Grp 1 (seqs [In wsCls, In upperCls]), In (chars '','')])
                [TGrp 1, TLit (js ''.'')] s;
          s = replaceAll True (seqs [Grp 1 (In (upperCls @ [(0x61, 0x7A)])), In (chars '',''),
                                     Grp 2 (In (upperCls @ [(0x61, 0x7A)]))])
                [TGrp 1, TLit (js ''.''), TGrp 2] s;
          s = replaceAll True
                (seqs [Grp 1 (seqs [In (wsCls @ chars ''-:,&#()'' @ [(0x5C, 0x5C)] @ chars ''/''),
                                    Rep 1 (Some 3) (In [(0x30, 0x39)])]), In (chars '','')])
                [TGrp 1, TLit (js ''.'')] s;
          s = replaceAll True
                (seqs [Grp 1 (seqs [Grp 2 (Alt Bol (In wsCls)),
                                    Grp 3 (alts (map lit (map js [''St'', ''Mr'', ''Ms'', ''Mrs'', ''Mx'', ''Dr'', ''Prof'', ''vs''])))]),
                       In (chars '','')])
                [TGrp 1, TLit (js ''.'')] s;
          s = replaceAll True (seqs [Bol, lit (js ''J,'')]) [TLit (js ''J.'')] s;
          s = replaceAll True
                (seqs [Grp 1 (NotIn (upperCls @ [(0x30, 0x39)])), In (chars ''&+''),
                       Grp 2 (NotIn (upperCls @ [(0x30, 0x39)]))])
                [TGrp 1, TGrp 2] s
      in s)"

text \<open>
  The generic terms that separate dependent titles. The last alternative is written in
  the source with a combining acute accent (S, e, U+0301, r, i, e).
\<close>

definition dependentRegex :: regex where
  "dependentRegex =
     seqs [Grp 1 (alts (map lit [js ''Series'', js ''Serie'', js ''Ser'', js ''Part'', js ''Section'',
                                js ''Sect'', js ''Sec'', [0x53, 0x65, 0x301, 0x72, 0x69, 0x65]])),
           optional (In (chars '',.'')), many (In wsCls),
           Grp 2 (Alt (In upperCls) (many1 (In ([(0x30, 0x39)] @ chars ''IVXivx'')))),
           Grp 3 (Alt (In boundaryCls) Eol)]"

definition frenchRegex :: regex where
  "frenchRegex =
     seqs [Grp 1 (Grp 2 (Alt Bol (In boundaryCls))),
           Grp 3 (alts (map lit (map js [''l'', ''L'', ''d'', ''D'', ''dell'', ''nell'']))),
           Grp 4 (Alt (In [(0x27, 0x27)]) (In [(0x2019, 0x2019)]))]"

text \<open>The title as it is when the single-word check is made.\<close>

definition prepare :: "runtime \<Rightarrow> jsstring \<Rightarrow> jserror + jsstring" where
  "prepare R v =
     (let s = punctuation (trim (NFC R v));
          s = replaceAll True dependentRegex [TGrp 2, TGrp 3] s
      in case removeShortWords R s articles beforeStartOrBoundary of
           Inl e \<Rightarrow> Inl e
         | Inr s \<Rightarrow> Inr (replaceAll True frenchRegex [TGrp 1] s))"

text \<open>\<open>s.replace(/\s+/gu, ' ').trim()\<close>.\<close>

definition collapse :: "jsstring \<Rightarrow> jsstring" where
  "collapse s = trim (replaceAll True (many1 (In wsCls)) [TLit (js '' '')] s)"

text \<open>The priority of a match; the lower value wins.\<close>

definition getPriority :: "match \<Rightarrow> int" where
  "getPriority m =
     (if startDash (mPattern m) then 100 else 0) + (if endDash (mPattern m) then 3 else 0)
     + int (length (mAppendix m))
     - (int (mIend m) - int (mI m) - int (length (mAppendix m)))
     - int (length (pattern (mPattern m)))"

definition overlap :: "match \<Rightarrow> match \<Rightarrow> bool" where
  "overlap a b = (mIend a > mI b \<and> mIend b > mI a)"

text \<open>
  The two nested loops that resolve overlaps: the inner one removes with \<open>splice\<close>
  every match after \<open>j\<close> that overlaps the match at \<open>j\<close>.
\<close>

function innerLoop :: "match list \<Rightarrow> nat \<Rightarrow> nat \<Rightarrow> match list" where
  "innerLoop matches j k =
     (if k < length matches then
        (if overlap (matches ! j) (matches ! k)
         then innerLoop (take k matches @ drop (k + 1) matches) j k
         else innerLoop matches j (k + 1))
      else matches)"
  by pat_completeness auto
termination
  by (relation "measure (\<lambda>(matches, j, k). length matches - k)") auto

declare innerLoop.simps [simp del]

lemma length_innerLoop: "j < k \<Longrightarrow> k \<le> length matches \<Longrightarrow>
    k \<le> length (innerLoop matches j k) \<and> length (innerLoop matches j k) \<le> length matches"
proof (induction matches j k rule: innerLoop.induct)
  case (1 matches j k)
  show ?case
  proof (cases "k < length matches")
    case False
    then have "innerLoop matches j k = matches" by (subst innerLoop.simps) simp
    with "1.prems" show ?thesis by simp
  next
    case True
    show ?thesis
    proof (cases "overlap (matches ! j) (matches ! k)")
      case o: True
      have e: "innerLoop matches j k = innerLoop (take k matches @ drop (k + 1) matches) j k"
        using True o by (subst innerLoop.simps) simp
      have "k \<le> length (take k matches @ drop (k + 1) matches)" using True by simp
      from "1.IH"(1)[OF True o "1.prems"(1) this] True show ?thesis unfolding e by simp arith
    next
      case o: False
      have e: "innerLoop matches j k = innerLoop matches j (k + 1)"
        using True o by (subst innerLoop.simps) simp
      from "1.IH"(2)[OF True o] "1.prems"(1) True show ?thesis unfolding e by simp
    qed
  qed
qed

function outerLoop :: "match list \<Rightarrow> nat \<Rightarrow> match list" where
  "outerLoop matches j =
     (if j < length matches then outerLoop (innerLoop matches j (j + 1)) (j + 1) else matches)"
  by pat_completeness auto
termination
proof (relation "measure (\<lambda>(matches, j). length matches - j)", goal_cases)
  case 1 show ?case by simp
next
  case (2 matches j)
  then have lt: "j < length matches" by simp
  then have "j < j + 1" "j + 1 \<le> length matches" by simp_all
  from length_innerLoop[OF this] lt show ?case by simp arith
qed

declare outerLoop.simps [simp del]

text \<open>
  Both sorts take a comparison function that subtracts two numbers, and are stable:
  ascending by priority, then descending by the beginning of the match.
\<close>

definition resolveOverlaps :: "match list \<Rightarrow> match list" where
  "resolveOverlaps matches = outerLoop (sort_key getPriority matches) 0"

definition byBeginningDescending :: "match list \<Rightarrow> match list" where
  "byBeginningDescending matches = sort_key (\<lambda>m. - int (mI m)) matches"

text \<open>The loop that applies the matches, later ones first.\<close>

fun applyMatches :: "match list \<Rightarrow> jsstring \<Rightarrow> jsstring" where
  "applyMatches [] s = s"
| "applyMatches (m # rest) s =
     applyMatches rest
       (if length (mAbbr m) < mIend m - mI m then take (mI m) s @ mAbbr m @ drop (mIend m) s else s)"

text \<open>
  \<open>makeAbbreviation(value, languages, patterns)\<close>: an argument that is \<open>undefined\<close> or
  left out is \<open>None\<close>. The result comes with the state in which the query leaves the
  engine.
\<close>

definition makeAbbreviation :: "runtime \<Rightarrow> engine \<Rightarrow> jsstring \<Rightarrow> jsstring list option
    \<Rightarrow> LTWAPattern list option \<Rightarrow> jserror + (jsstring \<times> engine)" where
  "makeAbbreviation R eng v langs patterns =
     (case (case patterns of
              None \<Rightarrow> getPotentialPatterns R eng v False
            | Some ps \<Rightarrow> Inr (ps, eng)) of
        Inl e \<Rightarrow> Inl e
      | Inr (ps, eng') \<Rightarrow>
          (case prepare R v of
             Inl e \<Rightarrow> Inl e
           | Inr s \<Rightarrow>
               (case removeShortWords R s (shortWordList eng') beforeStartOrBoundary of
                  Inl e \<Rightarrow> Inl e
                | Inr preResult \<Rightarrow>
                    if \<not> test True (seqs [Dot, In boundaryCls, Dot]) preResult
                    then Inr (collapse s, eng')
                    else
                      (case collectMatches R s ps langs False [] of
                         Inl e \<Rightarrow> Inl e
                       | Inr matches \<Rightarrow>
                           (case removeShortWords R
                                   (applyMatches (byBeginningDescending (resolveOverlaps matches)) s)
                                   (shortWordList eng') beforeBoundary of
                              Inl e \<Rightarrow> Inl e
                            | Inr s' \<Rightarrow> Inr (collapse s', eng'))))))"

section \<open>Notions used in the statements and proofs\<close>

subsection \<open>getCollatingMatch\<close>

text \<open>The invariant of the loop: both result arrays spell out what the cursors have passed.\<close>

definition gcmInv :: "jsstring list \<Rightarrow> jsstring list \<Rightarrow> nat \<Rightarrow> nat
    \<Rightarrow> jsstring list \<Rightarrow> jsstring list \<Rightarrow> bool" where
  "gcmInv ss tt i j r0 r1 = (i \<le> length ss \<and> j \<le> length tt \<and>
     concat r0 = concat (take i ss) \<and> concat r1 = concat (take j tt) \<and> length r0 = length r1)"

text \<open>What \<open>rewriteForeign\<close> makes of a single code unit.\<close>

definition foreignUnit :: "nat \<Rightarrow> jsstring" where
  "foreignUnit u = rewriteForeign [u]"

subsection \<open>Prefix tree\<close>

text \<open>
  A plain string has neither of the two characters that the node maps use for
  themselves, and each of its code points is one code unit.
\<close>

definition okUnit :: "nat \<Rightarrow> bool" where
  "okUnit u = (u \<noteq> 0x2D \<and> u \<noteq> 0x3F)"

definition plainKey :: "jsstring \<Rightarrow> bool" where
  "plainKey s = (list_all okUnit s \<and> codepoints s = map (\<lambda>u. [u]) s)"

text \<open>
  The nodes that insertions of plain keys build: \<open>'-'\<close> holds an array of pairs with
  plain rests, \<open>'?'\<close> is absent or \<open>true\<close>, every other key is a single unit and
  holds such a node again.
\<close>

inductive wfNode :: "'a jsval \<Rightarrow> bool" where
  wfNodeI: "map_of m [0x2D] = Some (Arr b) \<Longrightarrow> (\<forall>(r, v) \<in> set b. list_all okUnit r)
    \<Longrightarrow> map_of m [0x3F] = None \<or> map_of m [0x3F] = Some JTrue
    \<Longrightarrow> (\<forall>k child. map_of m k = Some child \<longrightarrow> k \<noteq> [0x2D] \<longrightarrow> k \<noteq> [0x3F]
          \<longrightarrow> (\<exists>u. k = [u]) \<and> wfNode child)
    \<Longrightarrow> wfNode (JMap m)"

text \<open>\<open>stored n k v\<close>: below node \<open>n\<close>, object \<open>v\<close> is filed under the path \<open>k\<close>.\<close>

inductive stored :: "'a jsval \<Rightarrow> jsstring \<Rightarrow> 'a \<Rightarrow> bool" where
  stored_here: "map_of m [0x2D] = Some (Arr b) \<Longrightarrow> (r, v) \<in> set b \<Longrightarrow> stored (JMap m) r v"
| stored_below: "map_of m [u] = Some child \<Longrightarrow> okUnit u \<Longrightarrow> stored child k v \<Longrightarrow> stored (JMap m) (u # k) v"

definition getsAllPrefixes :: "(jsstring \<times> 'a) list \<Rightarrow> jsstring \<Rightarrow> bool" where
  "getsAllPrefixes kvs s =
     (case addAll emptyTree kvs of
        Inl e \<Rightarrow> False
      | Inr t \<Rightarrow>
          (case get t s of
             Inl e \<Rightarrow> False
           | Inr vs \<Rightarrow> (\<forall>(k, v) \<in> set kvs. prefix k s \<longrightarrow> v \<in> set vs)))"

definition demoKeys :: "(jsstring \<times> nat) list" where
  "demoKeys = [(js ''ab'', 1), (js ''b'', 2), (js ''c'', 3), (js ''d'', 4), (js ''e'', 5),
     (js ''f'', 6), (js ''a'', 7), (js ''abc'', 8), (js ''abd'', 9)]"

subsection \<open>Construction of the engine\<close>

text \<open>
  The records of the LTWA: its lines after the header that are not blank. The pattern
  of a record as the constructor of \<open>LTWAPattern\<close> computes it: first field,
  NFC-normalized, trimmed, comment removed, trimmed.
\<close>

definition records :: "textInput \<Rightarrow> jsstring list" where
  "records ltwa = filter (\<lambda>l. length (trim l) \<noteq> 0) (tl (linesOf ltwa))"

definition cleanedPattern :: "runtime \<Rightarrow> jsstring \<Rightarrow> jsstring" where
  "cleanedPattern R l = trim (replaceFirst False commentRegex [] (trim (NFC R (hd (splitUnit 0x9 l)))))"

text \<open>The records the claim says are rejected, and the records the constructor rejects.\<close>

definition claimedMalformed :: "runtime \<Rightarrow> jsstring \<Rightarrow> bool" where
  "claimedMalformed R l = (length (splitUnit 0x9 l) < 3 \<or> length (cleanedPattern R l) < 3)"

definition malformed :: "runtime \<Rightarrow> jsstring \<Rightarrow> bool" where
  "malformed R l = (length (splitUnit 0x9 l) \<noteq> 3 \<or> length (cleanedPattern R l) < 3)"

definition errorMessage :: "jsstring \<Rightarrow> jsstring" where
  "errorMessage l =
     (if length (splitUnit 0x9 l) \<noteq> 3 then js ''Number of fields in LTWA line is not 3: ''
      else js ''LTWA line has too short pattern: '') @ [0x22] @ l @ [0x22]"

definition wfTrees :: "engine \<Rightarrow> bool" where
  "wfTrees eng = (wfNode (nonprefixPatterns eng) \<and> wfNode (dictPatterns eng))"

definition tab :: jsstring where
  "tab = [0x9]"

definition demoLtwa :: textInput where
  "demoLtwa = Lines [js ''WORD'' @ tab @ js ''ABBREVIATION'' @ tab @ js ''LANGUAGES'',
     js ''journal'' @ tab @ js ''j.'' @ tab @ js ''mul'',
     js '' '',
     js ''-ology (x)'' @ tab @ js ''-ol.'' @ tab @ js ''eng'',
     js ''ab'' @ tab @ js ''a.'' @ tab @ js ''eng'',
     js ''abcd'' @ tab @ js ''a.'']"


text \<open>An LTWA with two patterns that begin with an apostrophe, the later one first in
  the order of \<open>sort\<close>.\<close>

definition apostropheLtwa :: textInput where
  "apostropheLtwa = Lines [js ''WORD'' @ tab @ js ''ABBREVIATION'' @ tab @ js ''LANGUAGES'',
     [0x27] @ js ''zz'' @ tab @ js ''z.'' @ tab @ js ''eng'',
     [0x27] @ js ''aa'' @ tab @ js ''a.'' @ tab @ js ''eng'']"
section \<open>Equations for evaluation\<close>

text \<open>
  \<open>rewriteForeign\<close> makes nineteen passes over its string. It is the unit-wise map
  proved here, which leaves every unit below U+00B7 alone; evaluation uses this form.
\<close>

lemma replaceUnit_Nil: "replaceUnit c r [] = []"
  by (simp add: replaceUnit_def)

lemma replaceUnit_Cons: "replaceUnit c r (u # s) = (if u = c then r else [u]) @ replaceUnit c r s"
  by (simp add: replaceUnit_def)

lemma replaceUnit_append: "replaceUnit c r (x @ y) = replaceUnit c r x @ replaceUnit c r y"
  by (simp add: replaceUnit_def)

lemma rewriteForeign_append: "rewriteForeign (x @ y) = rewriteForeign x @ rewriteForeign y"
  by (simp only: rewriteForeign_def replaceUnit_append filter_append)

lemma rewriteForeign_Nil: "rewriteForeign [] = []"
  by (simp add: rewriteForeign_def replaceUnit_Nil)

lemma rewriteForeign_units: "rewriteForeign s = concat (map foreignUnit s)"
proof (induction s)
  case Nil show ?case by (simp add: rewriteForeign_Nil)
next
  case (Cons u s)
  have "rewriteForeign (u # s) = rewriteForeign ([u] @ s)" by simp
  also have "\<dots> = rewriteForeign [u] @ rewriteForeign s" by (rule rewriteForeign_append)
  finally show ?case using Cons by (simp add: foreignUnit_def)
qed

lemma less_neq: "(u :: nat) < a \<Longrightarrow> a \<le> b \<Longrightarrow> u \<noteq> b"
  by auto

lemma foreignUnit_low: "u < 0xB7 \<Longrightarrow> foreignUnit u = [u]"
  unfolding foreignUnit_def rewriteForeign_def
  by (simp add: replaceUnit_Cons replaceUnit_Nil less_neq js_def)

lemma rewriteForeign_code [code]:
  "rewriteForeign s = concat (map (\<lambda>u. if u < 0xB7 then [u] else foreignUnit u) s)"
  unfolding rewriteForeign_units by (rule arg_cong[where f=concat], rule map_cong) (simp_all add: foreignUnit_low)

lemma foreignUnit_code [code]:
  "foreignUnit u =
     filter (\<lambda>u. u \<noteq> 0xB7 \<and> u \<noteq> 0x2BA \<and> u \<noteq> 0xFFFD)
       (replaceUnit 0xD8 (js ''O'') (replaceUnit 0xF8 (js ''o'')
       (replaceUnit 0x131 (js ''i'')
       (replaceUnit 0xC6 (js ''Ae'') (replaceUnit 0xE6 (js ''ae'')
       (replaceUnit 0x152 (js ''Oe'') (replaceUnit 0x153 (js ''oe'')
       (replaceUnit 0x141 (js ''L'') (replaceUnit 0x142 (js ''l'')
       (replaceUnit 0x126 (js ''H'') (replaceUnit 0x127 (js ''h'')
       (replaceUnit 0xDE (js ''TH'') (replaceUnit 0xFE (js ''th'')
       (replaceUnit 0xD0 (js ''D'') (replaceUnit 0xF0 (js ''d'')
       (replaceUnit 0x110 (js ''D'') (replaceUnit 0x111 (js ''d'')
       (replaceUnit 0x1E9E (js ''SS'') (replaceUnit 0xDF (js ''ss'') [u])))))))))))))))))))"
  by (simp only: foreignUnit_def rewriteForeign_def)

section \<open>Properties of the collation utilities\<close>

lemma asciiFaithful_asciiRuntime: "asciiFaithful asciiRuntime"
  by (simp add: asciiFaithful_def asciiRuntime_def)

lemma ascii_no_marks: "isAscii x \<Longrightarrow> filter (\<lambda>u. \<not> isCombiningMark u) x = x"
proof -
  assume a: "isAscii x"
  have "\<forall>u\<in>set x. \<not> isCombiningMark u"
  proof (intro ballI notI)
    fix u assume u: "u \<in> set x" and n: "isCombiningMark u"
    from n have "0x300 \<le> u" by (simp add: isCombiningMark_def)
    moreover from a u have "u < 0x80" by (simp add: isAscii_def list_all_iff)
    ultimately show False by simp
  qed
  then show ?thesis by simp
qed

lemmas rf_eval = rewriteForeign_def replaceUnit_Nil replaceUnit_Cons js_def isAscii_def asciiLower_def

lemma cEquiv_ascii:
  "asciiFaithful R \<Longrightarrow> isAscii (rewriteForeign s) \<Longrightarrow> isAscii (rewriteForeign t) \<Longrightarrow>
   cEquiv R s t = (map asciiLower (rewriteForeign s) = map asciiLower (rewriteForeign t))"
  by (simp add: cEquiv_def asciiFaithful_def normalize_def ascii_no_marks)

lemma concat_codepoints: "concat (codepoints s) = s"
  by (induction s rule: codepoints.induct) auto

lemma concat_take2:
  assumes "i + 1 < length xs"
  shows "concat (take (i + 2) xs) = concat (take i xs) @ xs ! i @ xs ! (i + 1)"
proof -
  have "take (i + 2) xs = take (Suc (Suc i)) xs" by simp
  also have "\<dots> = take i xs @ [xs ! i, xs ! (i + 1)]"
    using assms by (simp add: take_Suc_conv_app_nth)
  finally show ?thesis by simp
qed

lemma concat_take1: "i < length xs \<Longrightarrow> concat (take (i + 1) xs) = concat (take i xs) @ xs ! i"
  by (simp add: take_Suc_conv_app_nth)

lemma inv_j1: "gcmInv ss tt i j r0 r1 \<Longrightarrow> j < length tt
    \<Longrightarrow> gcmInv ss tt i (j + 1) (r0 @ [[]]) (r1 @ [tt ! j])"
  unfolding gcmInv_def using concat_take1[of j tt] by simp

lemma inv_i1: "gcmInv ss tt i j r0 r1 \<Longrightarrow> i < length ss
    \<Longrightarrow> gcmInv ss tt (i + 1) j (r0 @ [ss ! i]) (r1 @ [[]])"
  unfolding gcmInv_def using concat_take1[of i ss] by simp

lemma inv_11: "gcmInv ss tt i j r0 r1 \<Longrightarrow> i < length ss \<Longrightarrow> j < length tt
    \<Longrightarrow> gcmInv ss tt (i + 1) (j + 1) (r0 @ [ss ! i]) (r1 @ [tt ! j])"
  unfolding gcmInv_def using concat_take1[of i ss] concat_take1[of j tt] by simp

lemma inv_12: "gcmInv ss tt i j r0 r1 \<Longrightarrow> i < length ss \<Longrightarrow> j + 1 < length tt
    \<Longrightarrow> gcmInv ss tt (i + 1) (j + 2) (r0 @ [ss ! i]) (r1 @ [tt ! j @ tt ! (j + 1)])"
  unfolding gcmInv_def using concat_take1[of i ss] concat_take2[of j tt] by simp

lemma inv_21: "gcmInv ss tt i j r0 r1 \<Longrightarrow> i + 1 < length ss \<Longrightarrow> j < length tt
    \<Longrightarrow> gcmInv ss tt (i + 2) (j + 1) (r0 @ [ss ! i @ ss ! (i + 1)]) (r1 @ [tt ! j])"
  unfolding gcmInv_def using concat_take2[of i ss] concat_take1[of j tt] by simp

lemma gcmLoop_inv:
  "gcmLoop R ss tt i j r0 r1 = Some (a, b) \<Longrightarrow> gcmInv ss tt i j r0 r1 \<Longrightarrow>
   (\<exists>n \<le> length ss. concat a = concat (take n ss)) \<and> concat b = concat tt \<and> length a = length b"
proof (induction "(length tt - j) + (length ss - i)" arbitrary: i j r0 r1 rule: less_induct)
  case less
  have step: "\<And>i' j' r0' r1'. gcmLoop R ss tt i' j' r0' r1' = Some (a, b) \<Longrightarrow> gcmInv ss tt i' j' r0' r1'
      \<Longrightarrow> (length tt - j') + (length ss - i') < (length tt - j) + (length ss - i)
      \<Longrightarrow> (\<exists>n \<le> length ss. concat a = concat (take n ss)) \<and> concat b = concat tt
          \<and> length a = length b"
    using less.hyps by blast
  note inv = less.prems(2)
  show ?case
  proof (cases "j < length tt")
    case False
    with less.prems show ?thesis
      by (auto simp: gcmLoop.simps[of R ss tt i j] gcmInv_def)
  next
    case jlt: True
    show ?thesis
    proof (cases "i \<ge> length ss")
      case True
      with less.prems(1) jlt
      have eq: "gcmLoop R ss tt i (j + 1) (r0 @ [[]]) (r1 @ [tt ! j]) = Some (a, b)"
        by (subst (asm) gcmLoop.simps) (simp split: if_splits)
      show ?thesis by (rule step[OF eq inv_j1[OF inv jlt]]) (use jlt in simp)
    next
      case False
      then have ilt: "i < length ss" by simp
      from less.prems(1) jlt ilt consider
          (a) "gcmLoop R ss tt i (j + 1) (r0 @ [[]]) (r1 @ [tt ! j]) = Some (a, b)"
        | (b) "gcmLoop R ss tt (i + 1) (j + 1) (r0 @ [ss ! i]) (r1 @ [tt ! j]) = Some (a, b)"
        | (c) "j + 1 < length tt"
              "gcmLoop R ss tt (i + 1) (j + 2) (r0 @ [ss ! i]) (r1 @ [tt ! j @ tt ! (j + 1)]) = Some (a, b)"
        | (d) "gcmLoop R ss tt (i + 1) j (r0 @ [ss ! i]) (r1 @ [[]]) = Some (a, b)"
        | (e) "i + 1 < length ss"
              "gcmLoop R ss tt (i + 2) (j + 1) (r0 @ [ss ! i @ ss ! (i + 1)]) (r1 @ [tt ! j]) = Some (a, b)"
        by (subst (asm) gcmLoop.simps) (simp split: if_splits)
      then show ?thesis
      proof cases
        case a show ?thesis by (rule step[OF a inv_j1[OF inv jlt]]) (use jlt in simp)
      next
        case b show ?thesis by (rule step[OF b inv_11[OF inv ilt jlt]]) (use jlt ilt in simp)
      next
        case c show ?thesis by (rule step[OF c(2) inv_12[OF inv ilt c(1)]]) (use jlt ilt in simp)
      next
        case d show ?thesis by (rule step[OF d inv_i1[OF inv ilt]]) (use jlt ilt in simp)
      next
        case e show ?thesis by (rule step[OF e(2) inv_21[OF inv e(1) jlt]]) (use jlt ilt in simp)
      qed
    qed
  qed
qed

lemma prefix_concat_take: "prefix (concat (take n xs)) (concat xs)"
proof -
  have "concat xs = concat (take n xs) @ concat (drop n xs)"
    by (metis append_take_drop_id concat_append)
  then show ?thesis by (simp add: prefix_def)
qed

text \<open>
  Claim C10. Whenever \<open>getCollatingMatch(s, t)\<close> succeeds, the entries of \<open>R[0]\<close>,
  concatenated, are a whole number of leading code points of \<open>s\<close>, hence a prefix of
  \<open>s\<close>, and the entries of \<open>R[1]\<close>, concatenated, are exactly \<open>t\<close>.
\<close>

theorem getCollatingMatch_decomposes:
  "getCollatingMatch R s t = Some (r0, r1) \<Longrightarrow>
     (\<exists>n \<le> length (codepoints s). concat r0 = concat (take n (codepoints s)))
     \<and> prefix (concat r0) s \<and> concat r1 = t \<and> length r0 = length r1"
proof -
  assume m: "getCollatingMatch R s t = Some (r0, r1)"
  have "gcmInv (codepoints s) (codepoints t) 0 0 [] []" by (simp add: gcmInv_def)
  with m have r: "(\<exists>n \<le> length (codepoints s). concat r0 = concat (take n (codepoints s)))
      \<and> concat r1 = concat (codepoints t) \<and> length r0 = length r1"
    unfolding getCollatingMatch_def by (rule gcmLoop_inv)
  then obtain n where "concat r0 = concat (take n (codepoints s))" by blast
  then have "prefix (concat r0) s"
    using prefix_concat_take[of n "codepoints s"] by (simp add: concat_codepoints)
  with r show ?thesis by (simp add: concat_codepoints)
qed

theorem getCollatingMatch_decomposes_witness:
  "getCollatingMatch asciiRuntime ([0x64, 0xE6, 0x6C, 0xB7] @ js ''lete'') (js ''daell'')
     = Some ([[0x64], [0xE6], [0x6C], [0xB7], [0x6C]], [[0x64], [0x61, 0x65], [0x6C], [], [0x6C]])
   \<and> prefix (concat [[0x64], [0xE6], [0x6C], [0xB7], [0x6C]]) ([0x64, 0xE6, 0x6C, 0xB7] @ js ''lete'')
   \<and> concat [[0x64], [0x61, 0x65], [0x6C], [], [0x6C :: nat]] = js ''daell''"
proof -
  have e: "getCollatingMatch asciiRuntime ([0x64, 0xE6, 0x6C, 0xB7] @ js ''lete'') (js ''daell'')
     = Some ([[0x64], [0xE6], [0x6C], [0xB7], [0x6C]], [[0x64], [0x61, 0x65], [0x6C], [], [0x6C]])"
    by code_simp
  from getCollatingMatch_decomposes[OF e] e show ?thesis by blast
qed

text \<open>
  Claim C4. The claim is that every pair \<open>(R[0][k], R[1][k])\<close> of a successful
  \<open>getCollatingMatch\<close> is \<open>cEquiv\<close>. The second branch of the loop tests the two
  next characters of both sides together and then pushes the first of each: on
  \<open>s\<close> = (U+00E6, U+00B7, e) and \<open>t = "ae"\<close> the match succeeds and its
  first pair is (U+00E6, a), which \<open>cEquiv\<close> rejects. This holds under every runtime
  that is faithful on ASCII.
\<close>

theorem getCollatingMatch_pair_not_cEquiv:
  "asciiFaithful R \<Longrightarrow>
     getCollatingMatch R [0xE6, 0xB7, 0x65] (js ''ae'')
       = Some ([[0xE6], [0xB7], [0x65]], [[0x61], [], [0x65]])
     \<and> \<not> cEquiv R [0xE6] (js ''a'')"
  apply (simp add: getCollatingMatch_def js_def isLead_def isTrail_def)
  apply (subst gcmLoop.simps, simp add: cEquiv_ascii rf_eval)+
  done

theorem getCollatingMatch_pair_not_cEquiv_witness:
  "asciiFaithful asciiRuntime
     \<and> getCollatingMatch asciiRuntime [0xE6, 0xB7, 0x65] (js ''ae'')
       = Some ([[0xE6], [0xB7], [0x65]], [[0x61], [], [0x65]])
     \<and> \<not> cEquiv asciiRuntime [0xE6] (js ''a'')"
  using getCollatingMatch_pair_not_cEquiv[OF asciiFaithful_asciiRuntime] asciiFaithful_asciiRuntime
  by simp

section \<open>Correctness of the prefix tree on plain keys\<close>

lemma js_dash: "js ''-'' = [0x2D]" by (simp add: js_def)
lemma js_qmark: "js ''?'' = [0x3F]" by (simp add: js_def)

lemma map_of_mapSet: "map_of (mapSet m k v) = (map_of m)(k \<mapsto> v)"
  by (induction m) (auto simp: fun_eq_iff)

lemma wfNode_newNode: "wfNode newNode"
  unfolding newNode_def js_dash by (rule wfNodeI[where b="[]"]) auto

lemma wf_child: "wfNode (JMap m) \<Longrightarrow> map_of m [u] = Some child \<Longrightarrow> okUnit u \<Longrightarrow> wfNode child"
  by (erule wfNode.cases) (auto simp: okUnit_def)

lemma wf_bucket: "wfNode n \<Longrightarrow> \<exists>m b. n = JMap m \<and> map_of m [0x2D] = Some (Arr b)"
  by (erule wfNode.cases) auto

lemma getLoop_ok: "wfNode n \<Longrightarrow> list_all okUnit s \<Longrightarrow>
   \<exists>res. getLoop n (map (\<lambda>u. [u]) s) acc = Inr res \<and> set acc \<subseteq> set res"
proof (induction s arbitrary: n acc)
  case Nil then show ?case by simp
next
  case (Cons u s)
  from Cons.prems(1) obtain m b where n: "n = JMap m" and b: "map_of m [0x2D] = Some (Arr b)"
    using wf_bucket by blast
  from Cons.prems(2) have u: "okUnit u" and s: "list_all okUnit s" by simp_all
  show ?case
  proof (cases "map_of m [u]")
    case None then show ?thesis by (simp add: n mapGet_def)
  next
    case (Some child)
    have wc: "wfNode child" by (rule wf_child[OF Cons.prems(1)[unfolded n] Some u])
    then obtain cm cb where c: "child = JMap cm" and cb: "map_of cm [0x2D] = Some (Arr cb)"
      using wf_bucket by blast
    from Cons.IH[OF wc s, of "acc @ cb"] obtain res where
      "getLoop child (map (\<lambda>u. [u]) s) (acc @ cb) = Inr res" "set (acc @ cb) \<subseteq> set res" by blast
    then show ?thesis using Some by (simp add: n c cb mapGet_def js_dash)
  qed
qed

lemma get_finds:
  "stored n k v \<Longrightarrow> wfNode n \<Longrightarrow> prefix k s \<Longrightarrow> list_all okUnit s \<Longrightarrow>
   (\<forall>m b. n = JMap m \<longrightarrow> map_of m [0x2D] = Some (Arr b) \<longrightarrow> set b \<subseteq> set acc) \<Longrightarrow>
   \<exists>res. getLoop n (map (\<lambda>u. [u]) s) acc = Inr res \<and> v \<in> snd ` set res"
proof (induction arbitrary: s acc rule: stored.induct)
  case (stored_here m b r v)
  from getLoop_ok[OF stored_here.prems(1,3), of acc] obtain res where
    r: "getLoop (JMap m) (map (\<lambda>u. [u]) s) acc = Inr res" "set acc \<subseteq> set res" by blast
  from stored_here have "(r, v) \<in> set acc" by auto
  with r show ?case by force
next
  case (stored_below m u child k v)
  from stored_below.prems(2) obtain s' where s: "s = u # s'" and p: "prefix k s'"
    by (cases s) auto
  from stored_below.prems(3) s have os: "list_all okUnit s'" by simp
  from stored_below.prems(1) stored_below.hyps(1,2) have wc: "wfNode child" by (rule wf_child)
  then obtain cm cb where c: "child = JMap cm" and cb: "map_of cm [0x2D] = Some (Arr cb)"
    using wf_bucket by blast
  have "\<exists>res. getLoop child (map (\<lambda>u. [u]) s') (acc @ cb) = Inr res \<and> v \<in> snd ` set res"
    by (rule stored_below.IH[OF wc p os]) (auto simp: c cb)
  then show ?case using stored_below.hyps(1) by (simp add: s c cb mapGet_def js_dash)
qed


definition kidsWf :: "(jsstring \<times> 'a jsval) list \<Rightarrow> bool" where
  "kidsWf m = (\<forall>k child. map_of m k = Some child \<longrightarrow> k \<noteq> [0x2D] \<longrightarrow> k \<noteq> [0x3F]
      \<longrightarrow> (\<exists>u. k = [u]) \<and> wfNode child)"

lemma wfNode_iff: "wfNode (JMap m) = ((\<exists>b. map_of m [0x2D] = Some (Arr b) \<and> (\<forall>(r, v) \<in> set b. list_all okUnit r))
    \<and> (map_of m [0x3F] = None \<or> map_of m [0x3F] = Some JTrue) \<and> kidsWf m)"
  unfolding kidsWf_def by (auto elim: wfNode.cases intro: wfNodeI)

lemma stored_bucket_ext:
  assumes "stored (JMap cm) k v" "map_of cm [0x2D] = Some (Arr cb)"
  shows "stored (JMap (mapSet cm [0x2D] (Arr (cb @ x)))) k v"
  using assms(1)
proof (cases rule: stored.cases)
  case (stored_here b)
  with assms(2) have "(k, v) \<in> set (cb @ x)" by simp
  then show ?thesis by (intro stored.stored_here[where b="cb @ x"]) (simp_all add: map_of_mapSet)
next
  case (stored_below u child k')
  then show ?thesis
    by (auto intro!: stored.stored_below simp: map_of_mapSet okUnit_def)
qed

lemma wf_bucket_ext:
  assumes "wfNode (JMap cm)" "map_of cm [0x2D] = Some (Arr cb)" "list_all okUnit r"
  shows "wfNode (JMap (mapSet cm [0x2D] (Arr (cb @ [(r, v)]))))"
  using assms unfolding wfNode_iff kidsWf_def by (auto simp: map_of_mapSet)

lemma splitLoop_ok:
  assumes "kidsWf m" "\<forall>(r, v) \<in> set rest. list_all okUnit r"
  shows "\<exists>m' ending'. splitLoop m ending rest = Inr (m', ending') \<and> kidsWf m'
     \<and> map_of m' [0x2D] = map_of m [0x2D] \<and> map_of m' [0x3F] = map_of m [0x3F]
     \<and> set ending' = set ending \<union> {(r, v). (r, v) \<in> set rest \<and> r = []}
     \<and> (\<forall>u child k v. okUnit u \<longrightarrow> map_of m [u] = Some child \<longrightarrow> stored child k v
            \<longrightarrow> (\<exists>child'. map_of m' [u] = Some child' \<and> stored child' k v))
     \<and> (\<forall>u k v. (u # k, v) \<in> set rest
            \<longrightarrow> (\<exists>child'. map_of m' [u] = Some child' \<and> stored child' k v))"
  using assms
proof (induction rest arbitrary: m ending)
  case Nil then show ?case by simp
next
  case (Cons pv rest)
  obtain position object where pv: "pv = (position, object)" by (cases pv)
  from Cons.prems(2) have rest: "\<forall>(r, v) \<in> set rest. list_all okUnit r"
    and pos: "list_all okUnit position" by (auto simp: pv)
  show ?case
  proof (cases position)
    case Nil
    from Cons.IH[OF Cons.prems(1) rest, of "ending @ [(position, object)]"]
    show ?thesis by (auto simp: pv Nil)
  next
    case (Cons u p')
    with pos have u: "okUnit u" and p': "list_all okUnit p'" by simp_all
    define m1 where "m1 = (if \<not> mapHas m [u] then mapSet m [u] newNode else m)"
    have k1: "kidsWf m1" using Cons.prems(1) wfNode_newNode
      by (auto simp: m1_def kidsWf_def map_of_mapSet)
    have "\<exists>child0. map_of m1 [u] = Some child0"
      by (auto simp: m1_def mapHas_def map_of_mapSet)
    then obtain child0 where c0: "map_of m1 [u] = Some child0" by blast
    with k1 u have w0: "wfNode child0" by (auto simp: kidsWf_def okUnit_def)
    then obtain cm cb where cm: "child0 = JMap cm" and cb: "map_of cm [0x2D] = Some (Arr cb)"
      using wf_bucket by blast
    define child2 where "child2 = JMap (mapSet cm [0x2D] (Arr (cb @ [(p', object)])))"
    define m2 where "m2 = mapSet m1 [u] child2"
    have w2: "wfNode child2" unfolding child2_def using w0[unfolded cm] cb p' by (rule wf_bucket_ext)
    have k2: "kidsWf m2" using k1 w2 by (auto simp: m2_def kidsWf_def map_of_mapSet)
    have step: "splitLoop m ending (pv # rest) = splitLoop m2 ending rest"
      using c0 cb by (simp add: pv Cons Let_def m1_def[symmetric] mapGet_def cm js_dash child2_def m2_def)
    from Cons.IH[OF k2 rest, of ending] obtain m' ending' where
      r: "splitLoop m2 ending rest = Inr (m', ending')" "kidsWf m'"
         "map_of m' [0x2D] = map_of m2 [0x2D]" "map_of m' [0x3F] = map_of m2 [0x3F]"
         "set ending' = set ending \<union> {(r, v). (r, v) \<in> set rest \<and> r = []}"
         "\<forall>u child k v. okUnit u \<longrightarrow> map_of m2 [u] = Some child \<longrightarrow> stored child k v
            \<longrightarrow> (\<exists>child'. map_of m' [u] = Some child' \<and> stored child' k v)"
         "\<forall>u k v. (u # k, v) \<in> set rest
            \<longrightarrow> (\<exists>child'. map_of m' [u] = Some child' \<and> stored child' k v)"
      by blast
    have d: "map_of m2 [0x2D] = map_of m [0x2D]" "map_of m2 [0x3F] = map_of m [0x3F]"
      using u by (auto simp: m2_def m1_def map_of_mapSet okUnit_def)
    have old: "\<exists>child'. map_of m2 [w] = Some child' \<and> stored child' k v"
      if "map_of m [w] = Some child" "stored child k v" for w child k v
    proof (cases "w = u")
      case False with that show ?thesis by (auto simp: m2_def m1_def map_of_mapSet)
    next
      case True
      with that(1) c0 have "child = child0" by (auto simp: m1_def mapHas_def split: if_splits)
      with that(2) have "stored child2 k v" unfolding child2_def cm using cb by (auto intro: stored_bucket_ext)
      then show ?thesis by (simp add: True m2_def map_of_mapSet)
    qed
    have new: "stored child2 p' object" unfolding child2_def
      by (rule stored_here[where b="cb @ [(p', object)]"]) (simp_all add: map_of_mapSet)
    have m2u: "map_of m2 [u] = Some child2" by (simp add: m2_def map_of_mapSet)
    show ?thesis
      unfolding step
      apply (rule exI[of _ m'], rule exI[of _ ending'])
      apply (intro conjI)
            apply (rule r(1))
           apply (rule r(2))
          apply (simp add: r(3) d)
         apply (simp add: r(4) d)
        apply (use r(5) in \<open>auto simp: pv Cons\<close>)[1]
       apply (use old r(6) in blast)
      apply (use new m2u r(6,7) u in \<open>auto simp: pv Cons\<close>)[1]
      done
  qed
qed


lemma splitNode_ok:
  assumes w: "wfNode (JMap m)"
  shows "\<exists>n'. splitNode (JMap m) = Inr n' \<and> wfNode n' \<and> (\<forall>k v. stored (JMap m) k v \<longrightarrow> stored n' k v)"
proof -
  from w obtain b where b: "map_of m [0x2D] = Some (Arr b)" and bo: "\<forall>(r, v) \<in> set b. list_all okUnit r"
    and km: "kidsWf m" unfolding wfNode_iff by blast
  from splitLoop_ok[OF km bo, of "[]"] obtain m' ending' where
    r: "splitLoop m [] b = Inr (m', ending')" "kidsWf m'"
       "set ending' = {(r, v). (r, v) \<in> set b \<and> r = []}"
       "\<And>u child k v. okUnit u \<Longrightarrow> map_of m [u] = Some child \<Longrightarrow> stored child k v
            \<Longrightarrow> (\<exists>child'. map_of m' [u] = Some child' \<and> stored child' k v)"
       "\<And>u k v. (u # k, v) \<in> set b
            \<Longrightarrow> (\<exists>child'. map_of m' [u] = Some child' \<and> stored child' k v)"
    by auto
  define n' where "n' = JMap (mapSet (mapSet m' [0x2D] (Arr ending')) [0x3F] JTrue)"
  have e: "splitNode (JMap m) = Inr n'"
    by (simp add: splitNode_def mapGet_def js_dash js_qmark b r(1) n'_def)
  have wn: "wfNode n'"
    unfolding n'_def wfNode_iff using r(2,3) by (auto simp: map_of_mapSet kidsWf_def)
  have below: "stored n' (u # k) v" if "okUnit u" "map_of m' [u] = Some child'" "stored child' k v"
    for u k v child'
    unfolding n'_def using that
    by (intro stored_below[where child=child']) (auto simp: map_of_mapSet okUnit_def)
  have st: "stored n' k v" if "stored (JMap m) k v" for k v
    using that
  proof (cases rule: stored.cases)
    case (stored_here b')
    with b have kb: "(k, v) \<in> set b" by simp
    show ?thesis
    proof (cases k)
      case Nil
      with kb r(3) have "(k, v) \<in> set ending'" by simp
      then show ?thesis unfolding n'_def
        by (intro stored.stored_here[where b=ending']) (simp_all add: map_of_mapSet)
    next
      case (Cons u k')
      with kb bo have "okUnit u" by auto
      moreover from r(5) kb Cons obtain child' where "map_of m' [u] = Some child'" "stored child' k' v"
        by blast
      ultimately show ?thesis unfolding Cons by (rule below)
    qed
  next
    case (stored_below u child k')
    from r(4)[OF stored_below(3,2,4)] obtain child' where "map_of m' [u] = Some child'" "stored child' k' v"
      by blast
    with stored_below(3) show ?thesis unfolding stored_below(1) by (rule below)
  qed
  from e wn st show ?thesis by blast
qed

lemma deposit_ok:
  assumes w: "wfNode n" and r: "list_all okUnit r" and d: "drop i pos = r"
  shows "\<exists>n'. deposit n i pos obj = Inr n' \<and> wfNode n' \<and> stored n' r obj
     \<and> (\<forall>k v. stored n k v \<longrightarrow> stored n' k v)"
proof -
  from w obtain m b where n: "n = JMap m" and b: "map_of m [0x2D] = Some (Arr b)"
    using wf_bucket by blast
  define n1 where "n1 = JMap (mapSet m [0x2D] (Arr (b @ [(r, obj)])))"
  have w1: "wfNode n1" unfolding n1_def using w[unfolded n] b r by (rule wf_bucket_ext)
  have s1: "stored n1 r obj" unfolding n1_def
    by (rule stored_here[where b="b @ [(r, obj)]"]) (simp_all add: map_of_mapSet)
  have m1: "stored n1 k v" if "stored n k v" for k v
    using that b unfolding n n1_def by (rule stored_bucket_ext)
  show ?thesis
  proof (cases "length b + 1 > maxNodeSize")
    case False
    then have "deposit n i pos obj = Inr n1"
      by (simp add: deposit_def n mapGet_def js_dash b d n1_def)
    with w1 s1 m1 show ?thesis by blast
  next
    case True
    then have e: "deposit n i pos obj = splitNode n1"
      by (simp add: deposit_def n mapGet_def js_dash b d n1_def)
    from w1 obtain mm where mm: "n1 = JMap mm" by (auto simp: n1_def)
    from splitNode_ok[OF w1[unfolded mm]] obtain n' where
      "splitNode n1 = Inr n'" "wfNode n'" "\<forall>k v. stored n1 k v \<longrightarrow> stored n' k v"
      unfolding mm by blast
    with e s1 m1 show ?thesis by auto
  qed
qed

lemma stored_child_update:
  assumes "stored (JMap m) k v" "okUnit u"
    and "\<And>child k' . map_of m [u] = Some child \<Longrightarrow> stored child k' v \<Longrightarrow> stored child' k' v"
  shows "stored (JMap (mapSet m [u] child')) k v"
  using assms(1)
proof (cases rule: stored.cases)
  case (stored_here b)
  then show ?thesis using assms(2)
    by (intro stored.stored_here[where b=b]) (auto simp: map_of_mapSet okUnit_def)
next
  case (stored_below w child k')
  show ?thesis
  proof (cases "w = u")
    case True
    with stored_below assms(3) have "stored child' k' v" by blast
    then show ?thesis unfolding stored_below(1) True using assms(2)
      by (intro stored.stored_below[where child=child']) (simp_all add: map_of_mapSet)
  next
    case False
    with stored_below show ?thesis unfolding stored_below(1)
      by (intro stored.stored_below[where child=child]) (simp_all add: map_of_mapSet)
  qed
qed

lemma wf_child_update:
  assumes "wfNode (JMap m)" "okUnit u" "wfNode child'"
  shows "wfNode (JMap (mapSet m [u] child'))"
  using assms unfolding wfNode_iff kidsWf_def by (auto simp: map_of_mapSet okUnit_def)

lemma addLoop_ok:
  assumes "wfNode n" "list_all okUnit ks" "drop i pos = ks"
  shows "\<exists>n'. addLoop n (map (\<lambda>u. [u]) ks) i pos obj = Inr n' \<and> wfNode n' \<and> stored n' ks obj
     \<and> (\<forall>k v. stored n k v \<longrightarrow> stored n' k v)"
  using assms
proof (induction ks arbitrary: n i)
  case Nil
  then show ?case using deposit_ok[of n "[]" i pos obj] by simp
next
  case (Cons u ks)
  from Cons.prems(1) obtain m where n: "n = JMap m" using wf_bucket by blast
  from Cons.prems(2) have u: "okUnit u" and ks: "list_all okUnit ks" by simp_all
  from Cons.prems(3) have dr: "drop (i + 1) pos = ks"
    by (metis Suc_eq_plus1 drop_Suc drop_drop list.sel(3) plus_1_eq_Suc tl_drop)
  have descend: ?case
    if wc: "wfNode child" and sub: "\<And>k v. map_of m [u] = Some c0 \<Longrightarrow> stored c0 k v \<Longrightarrow> stored child k v"
      and eq: "\<And>r. addLoop n (map (\<lambda>u. [u]) (u # ks)) i pos obj =
         (case addLoop child (map (\<lambda>u. [u]) ks) (i + 1) pos obj of Inl e \<Rightarrow> Inl e
          | Inr child' \<Rightarrow> Inr (JMap (mapSet m [u] child')))"
      and c0: "map_of m [u] = None \<or> map_of m [u] = Some c0"
    for child c0
  proof -
    from Cons.IH[OF wc ks dr] obtain child' where
      r: "addLoop child (map (\<lambda>u. [u]) ks) (i + 1) pos obj = Inr child'" "wfNode child'"
         "stored child' ks obj" "\<And>k v. stored child k v \<Longrightarrow> stored child' k v"
      by blast
    have 1: "addLoop n (map (\<lambda>u. [u]) (u # ks)) i pos obj = Inr (JMap (mapSet m [u] child'))"
      by (simp only: eq r(1) sum.case)
    have 2: "wfNode (JMap (mapSet m [u] child'))"
      using Cons.prems(1)[unfolded n] u r(2) by (rule wf_child_update)
    have 3: "stored (JMap (mapSet m [u] child')) (u # ks) obj"
      using u r(3) by (intro stored_below[where child=child']) (simp_all add: map_of_mapSet)
    have 4: "stored (JMap (mapSet m [u] child')) k v" if "stored n k v" for k v
      using that[unfolded n] u
    proof (rule stored_child_update)
      fix child k' assume "map_of m [u] = Some child" "stored child k' v"
      with c0 sub r(4) show "stored child' k' v" by auto
    qed
    from 1 2 3 4 show ?thesis unfolding n by blast
  qed
  show ?case
  proof (cases "map_of m [u]")
    case (Some child)
    have "wfNode child" by (rule wf_child[OF Cons.prems(1)[unfolded n] Some u])
    then show ?thesis
      by (rule descend[where ?c0.0=child]) (simp_all add: n mapGet_def Some)
  next
    case None
    show ?thesis
    proof (cases "mapHas m (js ''?'')")
      case True
      show ?thesis using wfNode_newNode
        by (rule descend[where ?c0.0=undefined]) (simp_all add: n mapGet_def None True)
    next
      case False
      then have "addLoop n (map (\<lambda>u. [u]) (u # ks)) i pos obj = deposit n i pos obj"
        by (simp add: n mapGet_def None)
      then show ?thesis
        using deposit_ok[OF Cons.prems(1) Cons.prems(2) Cons.prems(3), of obj] by simp
    qed
  qed
qed


text \<open>
  The property of C1 for one sequence of insertions and one query: everything returns,
  and the result has the object of every key that is a prefix of the query string.
\<close>

lemma add_ok:
  assumes "wfNode root" "plainKey k"
  shows "\<exists>root'. add root k v = Inr root' \<and> wfNode root' \<and> stored root' k v
     \<and> (\<forall>k' v'. stored root k' v' \<longrightarrow> stored root' k' v')"
  using addLoop_ok[of root k 0 k v] assms by (simp add: add_def plainKey_def)

lemma addAll_ok:
  assumes "wfNode root" "\<forall>(k, v) \<in> set kvs. plainKey k"
  shows "\<exists>t. addAll root kvs = Inr t \<and> wfNode t \<and> (\<forall>(k, v) \<in> set kvs. stored t k v)
     \<and> (\<forall>k v. stored root k v \<longrightarrow> stored t k v)"
  using assms
proof (induction kvs arbitrary: root)
  case Nil then show ?case by simp
next
  case (Cons kv kvs)
  obtain k v where kv: "kv = (k, v)" by (cases kv)
  from Cons.prems(2) have pk: "plainKey k" and rest: "\<forall>(k, v) \<in> set kvs. plainKey k"
    by (auto simp: kv)
  from add_ok[OF Cons.prems(1) pk, of v] obtain root' where
    a: "add root k v = Inr root'" "wfNode root'" "stored root' k v"
       "\<And>k' v'. stored root k' v' \<Longrightarrow> stored root' k' v'" by blast
  from Cons.IH[OF a(2) rest] obtain t where
    t: "addAll root' kvs = Inr t" "wfNode t" "\<forall>(k, v) \<in> set kvs. stored t k v"
       "\<And>k v. stored root' k v \<Longrightarrow> stored t k v" by blast
  have "addAll root (kv # kvs) = Inr t" by (simp add: kv a(1) t(1))
  moreover have "\<forall>(k, v) \<in> set (kv # kvs). stored t k v" using t(3) t(4)[OF a(3)] by (simp add: kv)
  moreover have "\<forall>k v. stored root k v \<longrightarrow> stored t k v" using a(4) t(4) by blast
  ultimately show ?case using t(2) by blast
qed

lemma get_ok:
  assumes w: "wfNode t" and s: "plainKey s"
  shows "\<exists>vs. get t s = Inr vs \<and> (\<forall>k v. stored t k v \<longrightarrow> prefix k s \<longrightarrow> v \<in> set vs)"
proof -
  from w obtain m b where t: "t = JMap m" and b: "map_of m [0x2D] = Some (Arr b)"
    using wf_bucket by blast
  from s have cp: "codepoints s = map (\<lambda>u. [u]) s" and os: "list_all okUnit s"
    by (simp_all add: plainKey_def)
  from getLoop_ok[OF w os, of b] obtain res where
    res: "getLoop t (map (\<lambda>u. [u]) s) b = Inr res" by blast
  then have g: "get t s = Inr (map snd res)"
    by (simp add: get_def t mapGet_def js_dash b cp)
  have "v \<in> set (map snd res)" if "stored t k v" "prefix k s" for k v
  proof -
    from get_finds[OF that(1) w that(2) os, of b] b t res show ?thesis by auto
  qed
  with g show ?thesis by blast
qed

lemma wfNode_emptyTree: "wfNode emptyTree"
  by (simp add: emptyTree_def wfNode_newNode)

text \<open>
  Claim C1. As stated, over every key and every query string, the claim fails: the
  characters \<open>'-'\<close> and \<open>'?'\<close> are keys of the node maps themselves, and the source
  says of its strings that they "should not contain characters '-' nor '?'". What
  holds: when every inserted key and the query string are plain (no \<open>'-'\<close>, no
  \<open>'?'\<close>, every code point a single code unit), all insertions and the query return,
  and the query returns the object of every inserted key that is a prefix of the query
  string.
\<close>

theorem prefixTree_no_false_negatives:
  "(\<forall>(k, v) \<in> set kvs. plainKey k) \<Longrightarrow> plainKey s \<Longrightarrow> getsAllPrefixes kvs s"
proof -
  assume k: "\<forall>(k, v) \<in> set kvs. plainKey k" and s: "plainKey s"
  from addAll_ok[OF wfNode_emptyTree k] obtain t where
    t: "addAll emptyTree kvs = Inr t" "wfNode t" "\<forall>(k, v) \<in> set kvs. stored t k v" by blast
  from get_ok[OF t(2) s] obtain vs where
    vs: "get t s = Inr vs" "\<forall>k v. stored t k v \<longrightarrow> prefix k s \<longrightarrow> v \<in> set vs" by blast
  from t(3) vs(2) have "\<forall>(k, v) \<in> set kvs. prefix k s \<longrightarrow> v \<in> set vs" by blast
  then show ?thesis by (simp add: getsAllPrefixes_def t(1) vs(1))
qed

theorem prefixTree_no_false_negatives_witness:
  "list_all (\<lambda>kv. plainKey (fst kv)) demoKeys \<and> plainKey (js ''abcd'')
   \<and> getsAllPrefixes demoKeys (js ''abcd'')
   \<and> (case addAll emptyTree demoKeys of Inr t \<Rightarrow> get t (js ''abcd'') = Inr [1, 7, 8, 9] | Inl e \<Rightarrow> False)"
proof -
  have 0: "list_all (\<lambda>kv. plainKey (fst kv)) demoKeys" by code_simp
  then have 1: "\<forall>(k, v) \<in> set demoKeys. plainKey k" by (auto simp: list_all_iff)
  have 2: "plainKey (js ''abcd'')" by code_simp
  have 3: "case addAll emptyTree demoKeys of Inr t \<Rightarrow> get t (js ''abcd'') = Inr [1, 7, 8, 9] | Inl e \<Rightarrow> False"
    by code_simp
  from prefixTree_no_false_negatives[OF 1 2] 0 2 3 show ?thesis by blast
qed

text \<open>
  The counterexample for C1: six insertions, the first under the key \<open>"?a"\<close>. The sixth
  splits the root, which files the first object under the child \<open>'?'\<close> and then
  overwrites that child with the flag \<open>true\<close>; \<open>get("?a")\<close> then calls \<open>get\<close> on
  \<open>true\<close> and throws.
\<close>

theorem prefixTree_question_mark_counterexample:
  "\<not> getsAllPrefixes [(js ''?a'', 1 :: nat), (js ''b'', 2), (js ''c'', 3), (js ''d'', 4), (js ''e'', 5), (js ''f'', 6)]
       (js ''?a'')"
  by code_simp

lemma prefixTree_question_mark_raises:
  "(case addAll emptyTree [(js ''?a'', 1 :: nat), (js ''b'', 2), (js ''c'', 3), (js ''d'', 4), (js ''e'', 5), (js ''f'', 6)]
    of Inr t \<Rightarrow> get t (js ''?a'') = Inl TypeError | Inl e \<Rightarrow> False)"
  by code_simp

text \<open>
  A key with a code point of two code units is lost without an error: \<open>add\<close> and
  \<open>get\<close> walk by code points, \<open>splitNode\<close> files by \<open>charAt(0)\<close>, a single unit.
\<close>

lemma prefixTree_astral_false_negative:
  "(case addAll emptyTree [([0xD83D, 0xDE00, 0x61], 1 :: nat), (js ''b'', 2), (js ''c'', 3), (js ''d'', 4), (js ''e'', 5), (js ''f'', 6)]
    of Inr t \<Rightarrow> get t [0xD83D, 0xDE00, 0x61] = Inr [] | Inl e \<Rightarrow> False)"
  by code_simp

section \<open>Properties of the regular expressions\<close>

lemma search_None: "search False s r i = None \<Longrightarrow> i \<le> k \<Longrightarrow> k \<le> length s \<Longrightarrow> ms False s r (k, []) = []"
proof (induction False s r i rule: search.induct)
  case (1 s r i)
  from "1.prems"(1) "1.prems"(2,3) have nil: "ms False s r (i, []) = []" and le: "\<not> i > length s"
    by (subst (asm) search.simps, simp split: if_splits list.splits)+
  from "1.prems"(1) nil le have rec: "search False s r (i + 1) = None"
    by (subst (asm) search.simps) (simp add: advance_def)
  show ?case
  proof (cases "k = i")
    case True with nil show ?thesis by simp
  next
    case False
    with "1.prems"(2) have "i + 1 \<le> k" by simp
    from "1.hyps"[OF le nil] rec this "1.prems"(3) show ?thesis by (simp add: advance_def)
  qed
qed

lemma search_first: "search False s r i = Some (a, st) \<Longrightarrow> i \<le> k \<Longrightarrow> k < a \<Longrightarrow> ms False s r (k, []) = []"
proof (induction False s r i rule: search.induct)
  case (1 s r i)
  from "1.prems" have le: "\<not> i > length s"
    by (subst (asm) search.simps) (simp split: if_splits)
  show ?case
  proof (cases "ms False s r (i, [])")
    case (Cons x xs)
    with "1.prems"(1) le have "a = i" by (subst (asm) search.simps) simp
    with "1.prems"(2,3) show ?thesis by simp
  next
    case Nil
    with "1.prems"(1) le have rec: "search False s r (i + 1) = Some (a, st)"
      by (subst (asm) search.simps) (simp add: advance_def)
    show ?thesis
    proof (cases "k = i")
      case True with Nil show ?thesis by simp
    next
      case False
      with "1.prems"(2) have "i + 1 \<le> k" by simp
      from "1.hyps"[OF le Nil] rec this "1.prems"(3) show ?thesis by (simp add: advance_def)
    qed
  qed
qed

lemma set_substring: "set (substring s a b) \<subseteq> set s"
  unfolding substring_def by (meson set_drop_subset set_take_subset subset_trans)

lemma replaceAllFrom_delete_subset: "set (replaceAllFrom uf r [] s i src) \<subseteq> set s"
proof (induction uf r "[] :: tpart list" s i src rule: replaceAllFrom.induct)
  case (1 uf r s i src)
  show ?case
  proof (cases "search uf s r i")
    case None
    then show ?thesis by (subst replaceAllFrom.simps) (simp add: set_drop_subset)
  next
    case (Some x)
    obtain a b caps where x: "x = (a, (b, caps))" by (cases x) auto
    from "1.hyps"[OF Some[unfolded x] refl refl] set_substring[of s src a]
    show ?thesis by (subst replaceAllFrom.simps) (auto simp: Some x expand_def)
  qed
qed


lemma ms_NotIn_nil: "ms False s (NotIn c) (k, caps) = [] \<Longrightarrow> k < length s \<Longrightarrow> inCls c (s ! k)"
  by (simp add: regexChar_def split: if_splits)

lemma ms_NotIn_step: "(b, caps) \<in> set (ms False s (NotIn c) (a, [])) \<Longrightarrow> b = a + 1 \<and> caps = []"
  by (simp add: regexChar_def split: if_splits)

lemma set_substring_nth: "u \<in> set (substring s a b) \<Longrightarrow> \<exists>k. a \<le> k \<and> k < b \<and> k < length s \<and> u = s ! k"
proof -
  assume "u \<in> set (substring s a b)"
  then obtain j where j: "j < length (take (b - a) (drop a s))" "u = take (b - a) (drop a s) ! j"
    unfolding substring_def by (auto simp: in_set_conv_nth)
  then have "a + j < b" "a + j < length s" "u = s ! (a + j)" by auto
  then show ?thesis by (intro exI[of _ "a + j"]) simp
qed

lemma replaceAll_NotIn_units:
  "i = src \<Longrightarrow> set (replaceAllFrom False (NotIn c) [TLit [y]] s i src) \<subseteq> {u. inCls c u} \<union> {y}"
proof (induction False "NotIn c" "[TLit [y]]" s i src rule: replaceAllFrom.induct)
  case (1 s i src)
  show ?case
  proof (cases "search False s (NotIn c) i")
    case None
    have "inCls c u" if "u \<in> set (drop src s)" for u
    proof -
      from that obtain k where k: "src \<le> k" "k < length s" "u = s ! k"
        using set_substring_nth[of u s src "length s"] by (auto simp: substring_def)
      from search_None[OF None, of k] k "1.prems" have "ms False s (NotIn c) (k, []) = []" by simp
      from ms_NotIn_nil[OF this k(2)] k(3) show ?thesis by simp
    qed
    then show ?thesis by (subst replaceAllFrom.simps) (auto simp: None)
  next
    case (Some x)
    obtain a b caps where x: "x = (a, (b, caps))" by (cases x) auto
    from search_Some[OF Some[unfolded x]] have m: "(b, caps) \<in> set (ms False s (NotIn c) (a, []))" by simp
    from ms_NotIn_step[OF m] have b: "b = a + 1" "caps = []" by simp_all
    have pre: "inCls c u" if "u \<in> set (substring s src a)" for u
    proof -
      from set_substring_nth[OF that] obtain k where k: "src \<le> k" "k < a" "k < length s" "u = s ! k" by blast
      from search_first[OF Some[unfolded x], of k] k "1.prems" have "ms False s (NotIn c) (k, []) = []" by simp
      from ms_NotIn_nil[OF this k(3)] k(4) show ?thesis by simp
    qed
    have rest: "set (replaceAllFrom False (NotIn c) [TLit [y]] s b b) \<subseteq> {u. inCls c u} \<union> {y}"
      using "1.hyps"[OF Some[unfolded x] refl refl] b by simp
    show ?thesis
      apply (subst replaceAllFrom.simps)
      using pre rest b by (auto simp: Some x expand_def)
  qed
qed

lemma promiscuouslyNormalize_units:
  "set (promiscuouslyNormalize R s) \<subseteq> {u. inCls (chars '' '' @ [(0x61, 0x7A)]) u}"
proof -
  have "set (replaceAll False (NotIn (chars '' '' @ [(0x61, 0x7A)])) [TLit (js '' '')] x)
      \<subseteq> {u. inCls (chars '' '' @ [(0x61, 0x7A)]) u}" for x
    using replaceAll_NotIn_units[of 0 0 "chars '' '' @ [(0x61, 0x7A)]" "0x20" x]
    by (auto simp: replaceAll_def js_def inCls_def chars_def)
  then show ?thesis
    unfolding promiscuouslyNormalize_def replaceAll_def
    by (meson replaceAllFrom_delete_subset subset_trans)
qed

lemma no_pair_codepoints: "\<forall>u \<in> set s. \<not> isLead u \<Longrightarrow> codepoints s = map (\<lambda>u. [u]) s"
  by (induction s rule: codepoints.induct) auto

lemma plainKey_promiscuouslyNormalize: "plainKey (promiscuouslyNormalize R s)"
proof -
  have u: "okUnit u \<and> \<not> isLead u" if "u \<in> set (promiscuouslyNormalize R s)" for u
  proof -
    from that promiscuouslyNormalize_units have "inCls (chars '' '' @ [(0x61, 0x7A)]) u" by blast
    then have "u = 0x20 \<or> (0x61 \<le> u \<and> u \<le> 0x7A)" by (auto simp: inCls_def chars_def)
    then show ?thesis
    proof
      assume "u = 0x20" then show ?thesis by (simp add: okUnit_def isLead_def)
    next
      assume a: "0x61 \<le> u \<and> u \<le> 0x7A"
      have "u \<noteq> 0x2D" "u \<noteq> 0x3F" using a by auto
      moreover have "\<not> 0xD800 \<le> u"
      proof
        assume "0xD800 \<le> u"
        with a show False by simp
      qed
      ultimately show ?thesis by (simp add: okUnit_def isLead_def)
    qed
  qed
  then show ?thesis unfolding plainKey_def
    by (auto simp: list_all_iff intro!: no_pair_codepoints)
qed


section \<open>Construction of the engine\<close>

lemma splitUnit_nonempty: "splitUnit c s \<noteq> []"
  by (induction s) (auto split: list.splits)

lemma newLTWAPattern_malformed:
  "malformed R l \<Longrightarrow> newLTWAPattern R n l = Inl (Error (errorMessage l))"
  using splitUnit_nonempty[of "0x9" l]
  by (auto simp: malformed_def newLTWAPattern_def errorMessage_def cleanedPattern_def Let_def hd_conv_nth)

lemma newLTWAPattern_ok:
  "\<not> malformed R l \<Longrightarrow> \<exists>pat. newLTWAPattern R n l = Inr pat"
  using splitUnit_nonempty[of "0x9" l]
  by (auto simp: malformed_def newLTWAPattern_def cleanedPattern_def Let_def hd_conv_nth)

lemma addPattern_ok:
  assumes "wfTrees eng"
  shows "\<exists>eng'. addPattern R eng pat = Inr eng' \<and> wfTrees eng' \<and> engineSize eng' = engineSize eng + 1"
proof -
  define key where "key = promiscuouslyNormalize R (normalize R (stripEndDash (stripStartDash (pattern pat))))"
  have pk: "plainKey key" unfolding key_def by (rule plainKey_promiscuouslyNormalize)
  define eng1 where "eng1 = (if \<not> test True (Seq Bol (In [(0x41, 0x5A), (0x61, 0x7A)]))
       (normalize R (stripEndDash (stripStartDash (pattern pat))))
     then eng\<lparr>badPatterns := badPatterns eng @ [pat]\<rparr> else eng)"
  have w1: "wfNode (nonprefixPatterns eng1)" "wfNode (dictPatterns eng1)" and s1: "engineSize eng1 = engineSize eng"
    using assms by (auto simp: eng1_def wfTrees_def)
  show ?thesis
  proof (cases "startDash pat")
    case True
    from add_ok[OF w1(1) pk, of pat] obtain t where t: "add (nonprefixPatterns eng1) key pat = Inr t" "wfNode t"
      by blast
    then show ?thesis using True w1 s1
      by (simp add: addPattern_def Let_def key_def[symmetric] eng1_def[symmetric] wfTrees_def)
  next
    case False
    from add_ok[OF w1(2) pk, of pat] obtain t where t: "add (dictPatterns eng1) key pat = Inr t" "wfNode t"
      by blast
    then show ?thesis using False w1 s1
      by (simp add: addPattern_def Let_def key_def[symmetric] eng1_def[symmetric] wfTrees_def)
  qed
qed

lemma addLines_char:
  "wfTrees eng \<Longrightarrow>
   (case find (malformed R) (filter (\<lambda>l. length (trim l) \<noteq> 0) ls) of
      Some l \<Rightarrow> addLines R eng ls = Inl (Error (errorMessage l))
    | None \<Rightarrow> (\<exists>eng'. addLines R eng ls = Inr eng' \<and> wfTrees eng'
         \<and> engineSize eng' = engineSize eng + length (filter (\<lambda>l. length (trim l) \<noteq> 0) ls)))"
proof (induction ls arbitrary: eng)
  case Nil then show ?case by simp
next
  case (Cons l ls)
  show ?case
  proof (cases "length (trim l) = 0")
    case True
    with Cons.IH[OF Cons.prems] show ?thesis by (auto split: option.splits)
  next
    case nb: False
    show ?thesis
    proof (cases "malformed R l")
      case True
      with nb show ?thesis by (simp add: newLTWAPattern_malformed)
    next
      case False
      from newLTWAPattern_ok[OF False, of "engineSize eng"] obtain pat where
        p: "newLTWAPattern R (engineSize eng) l = Inr pat" by blast
      from addPattern_ok[OF Cons.prems, of R pat] obtain eng1 where
        e: "addPattern R eng pat = Inr eng1" "wfTrees eng1" "engineSize eng1 = engineSize eng + 1" by blast
      from Cons.IH[OF e(2)] nb False p e(1,3) show ?thesis
        by (auto split: option.splits)
    qed
  qed
qed

lemma wfTrees_initial:
  "wfTrees \<lparr> badPatterns = [], nonprefixPatterns = emptyTree, dictPatterns = emptyTree,
              engineSize = 0, shortWordList = [] \<rparr>"
  by (simp add: wfTrees_def wfNode_emptyTree)

text \<open>
  Claim C8. The constructor of \<open>LTWAPattern\<close> tests \<open>a.length != 3\<close>, so a record
  with more than three fields is rejected too, which the claim's "if and only if"
  excludes. What holds: construction fails exactly when some record does not have
  three fields or has a cleaned pattern of fewer than three code units; it then throws
  for the first such record, with a message that quotes the raw line; otherwise it
  returns an engine whose size is the number of records.
\<close>

theorem engine_construction:
  "(case find (malformed R) (records ltwa) of
      Some l \<Rightarrow> newAbbrevIso R ltwa words = Inl (Error (errorMessage l))
    | None \<Rightarrow> (\<exists>eng. newAbbrevIso R ltwa words = Inr eng \<and> engineSize eng = length (records ltwa)))"
  using addLines_char[OF wfTrees_initial, of R "tl (linesOf ltwa)"]
  by (auto simp: newAbbrevIso_def records_def split: option.splits)

theorem engine_construction_witness:
  "find (malformed asciiRuntime) (records demoLtwa) = Some (js ''ab'' @ tab @ js ''a.'' @ tab @ js ''eng'')
   \<and> newAbbrevIso asciiRuntime demoLtwa (Lines []) =
       Inl (Error (js ''LTWA line has too short pattern: '' @ [0x22] @ js ''ab'' @ tab @ js ''a.'' @ tab @ js ''eng'' @ [0x22]))"
proof -
  have f: "find (malformed asciiRuntime) (records demoLtwa) = Some (js ''ab'' @ tab @ js ''a.'' @ tab @ js ''eng'')"
    by code_simp
  have m: "errorMessage (js ''ab'' @ tab @ js ''a.'' @ tab @ js ''eng'')
     = js ''LTWA line has too short pattern: '' @ [0x22] @ js ''ab'' @ tab @ js ''a.'' @ tab @ js ''eng'' @ [0x22]"
    by code_simp
  from engine_construction[of asciiRuntime demoLtwa "Lines []"] f m show ?thesis by simp
qed

text \<open>
  The counterexample for C8: a record of four fields with the pattern \<open>abc\<close> is
  rejected, and is none of the records the claim says are rejected.
\<close>

theorem four_fields_counterexample:
  "\<not> ((\<exists>e. newAbbrevIso asciiRuntime
            (Lines [js ''WORD'', js ''abc'' @ tab @ js ''ab.'' @ tab @ js ''eng'' @ tab @ js ''x'']) (Lines []) = Inl e)
       \<longleftrightarrow> claimedMalformed asciiRuntime (js ''abc'' @ tab @ js ''ab.'' @ tab @ js ''eng'' @ tab @ js ''x''))"
proof -
  have 1: "newAbbrevIso asciiRuntime
            (Lines [js ''WORD'', js ''abc'' @ tab @ js ''ab.'' @ tab @ js ''eng'' @ tab @ js ''x'']) (Lines [])
      = Inl (Error (js ''Number of fields in LTWA line is not 3: '' @ [0x22]
           @ js ''abc'' @ tab @ js ''ab.'' @ tab @ js ''eng'' @ tab @ js ''x'' @ [0x22]))"
    by code_simp
  have 2: "\<not> claimedMalformed asciiRuntime (js ''abc'' @ tab @ js ''ab.'' @ tab @ js ''eng'' @ tab @ js ''x'')"
    by code_simp
  from 1 2 show ?thesis by simp
qed


section \<open>The queries and the state of the engine\<close>

text \<open>
  Claim C7 says that no query changes the engine, the order of \<open>badPatterns_\<close> included.
  \<open>getPotentialPatterns\<close> starts from the array \<open>badPatterns_\<close> itself and replaces it by
  a copy only at the first \<open>concat\<close>, that is at the first letter of the normalized
  title. For a title without a letter, \<open>result.sort()\<close> sorts the array of the engine:
  on the engine built from two patterns \<open>'zz\<close> and \<open>'aa\<close>, in this order, the query for
  the title \<open>123\<close> returns and leaves \<open>badPatterns_\<close> in the order \<open>'aa\<close>, \<open>'zz\<close>.
\<close>

theorem getPotentialPatterns_sorts_badPatterns:
  "(case newAbbrevIso asciiRuntime apostropheLtwa (Lines []) of
      Inl e \<Rightarrow> False
    | Inr eng \<Rightarrow>
        (case getPotentialPatterns asciiRuntime eng (js ''123'') False of
           Inl e \<Rightarrow> False
         | Inr (ps, eng') \<Rightarrow>
             map pattern (badPatterns eng) = [[0x27] @ js ''zz'', [0x27] @ js ''aa'']
           \<and> map pattern (badPatterns eng') = [[0x27] @ js ''aa'', [0x27] @ js ''zz'']))"
  by code_simp
end
